theory Spec2Isabelle
  imports Main "HOL-Library.Word"
begin

section \<open>Python and pandas primitives used by \<open>preprocess.py\<close>\<close>

text \<open>
  Strings are ASCII texts: the records are decoded with
  \<^verbatim>\<open>text.decode('ascii', 'ignore')\<close>, and the codes of the reference sheet and the
  first characters of a folder name, which select the year, are taken to be ASCII too.
  A character is a \<^typ>\<open>char\<close>; the bytes of a file are characters as well.
  Exceptions are values of \<open>error\<close>; a computation that may raise returns
  \<open>error + 'a\<close> with \<open>Inl\<close> the exception.  \<open>DecodeError\<close> stands for the
  exception pandas raises in \<^verbatim>\<open>pd.DataFrame(zdc_mapped.to_list(), columns=['sign','value'])\<close>
  when an entry of the list is NaN, that is when a sign symbol is not a key of \<open>zd_map\<close>.
\<close>

datatype error =
    KeyError | ValueError | OverflowError | TypeError | AttributeError
  | UnboundLocalError | FileNotFoundError | DecodeError

type_synonym int64 = "64 word"

text \<open>Python's \<^verbatim>\<open>s[start:stop]\<close> (step 1): a negative index counts from the end,
  both indices are clamped to the length, an omitted index is \<open>None\<close>.\<close>

definition py_index :: "nat \<Rightarrow> int \<Rightarrow> nat" where
  "py_index len i = (if i < 0 then nat (max 0 (i + int len)) else min (nat i) len)"

definition py_slice :: "int option \<Rightarrow> int option \<Rightarrow> 'a list \<Rightarrow> 'a list" where
  "py_slice start stop s =
     (let lo = (case start of None \<Rightarrow> 0 | Some i \<Rightarrow> py_index (length s) i);
          hi = (case stop of None \<Rightarrow> length s | Some j \<Rightarrow> py_index (length s) j)
      in take (hi - lo) (drop lo s))"

text \<open>\<^verbatim>\<open>for x in xs: ...\<close> over a computation that may raise: the first exception
  ends the loop.\<close>

fun mapM :: "('a \<Rightarrow> error + 'b) \<Rightarrow> 'a list \<Rightarrow> error + 'b list" where
  "mapM f [] = Inr []"
| "mapM f (x # xs) =
     (case f x of
        Inl e \<Rightarrow> Inl e
      | Inr y \<Rightarrow> (case mapM f xs of Inl e \<Rightarrow> Inl e | Inr ys \<Rightarrow> Inr (y # ys)))"

subsection \<open>\<^verbatim>\<open>int(str)\<close> and \<^verbatim>\<open>astype('int64')\<close>\<close>

definition is_digit :: "char \<Rightarrow> bool" where
  "is_digit c = (48 \<le> (of_char c :: nat) \<and> (of_char c :: nat) \<le> 57)"

definition digit_val :: "char \<Rightarrow> int" where
  "digit_val c = int (of_char c) - 48"

text \<open>The characters \<^verbatim>\<open>int\<close> strips from both ends: tab, line feed, vertical tab, form
  feed, carriage return, the four separators 28 to 31, and the blank.\<close>

definition py_isspace :: "char \<Rightarrow> bool" where
  "py_isspace c = ((of_char c :: nat) \<in> {9, 10, 11, 12, 13, 28, 29, 30, 31, 32})"

definition py_strip :: "string \<Rightarrow> string" where
  "py_strip s = rev (dropWhile py_isspace (rev (dropWhile py_isspace s)))"

text \<open>The digits of a decimal literal, read after a first digit: digits, with single
  underscores allowed between two digits.\<close>

fun py_digits :: "int \<Rightarrow> string \<Rightarrow> int option" where
  "py_digits acc [] = Some acc"
| "py_digits acc [c] = (if is_digit c then Some (acc * 10 + digit_val c) else None)"
| "py_digits acc (c # d # ds) =
     (if is_digit c then py_digits (acc * 10 + digit_val c) (d # ds)
      else if c = CHR ''_'' \<and> is_digit d then py_digits (acc * 10 + digit_val d) ds
      else None)"

definition py_unsigned :: "string \<Rightarrow> int option" where
  "py_unsigned s =
     (case s of [] \<Rightarrow> None
      | c # cs \<Rightarrow> if is_digit c then py_digits (digit_val c) cs else None)"

text \<open>\<^verbatim>\<open>int(s)\<close> for a string: \<open>None\<close> is \<^verbatim>\<open>ValueError\<close>.  Python's integers are
  unbounded.\<close>

definition py_int :: "string \<Rightarrow> int option" where
  "py_int s =
     (case py_strip s of [] \<Rightarrow> None
      | c # cs \<Rightarrow>
          if c = CHR ''-'' then map_option uminus (py_unsigned cs)
          else if c = CHR ''+'' then py_unsigned cs
          else py_unsigned (c # cs))"

text \<open>One element of \<^verbatim>\<open>series.astype('int64')\<close> on a series of strings: the string is
  read as a Python integer, which must fit a signed 64-bit integer.\<close>

definition astype_int64 :: "string \<Rightarrow> error + int64" where
  "astype_int64 s =
     (case py_int s of
        None \<Rightarrow> Inl ValueError
      | Some v \<Rightarrow>
          if - (2 ^ 63) \<le> v \<and> v < 2 ^ 63 then Inr (word_of_int v) else Inl OverflowError)"

section \<open>The zoned-decimal decoder \<open>__zd_convertor\<close>\<close>

text \<open>The dictionary \<open>zd_map\<close> of the source, in its order: key, then \<open>[sign, value]\<close>.\<close>

definition zd_map_entries :: "(string \<times> int \<times> int) list" where
  "zd_map_entries =
     [(''{'', 1, 0), (''}'', -1, 0),
      (''A'', 1, 1), (''J'', -1, 1),
      (''B'', 1, 2), (''K'', -1, 2),
      (''C'', 1, 3), (''L'', -1, 3),
      (''D'', 1, 4), (''M'', -1, 4),
      (''E'', 1, 5), (''N'', -1, 5),
      (''F'', 1, 6), (''O'', -1, 6),
      (''G'', 1, 7), (''P'', -1, 7),
      (''H'', 1, 8), (''Q'', -1, 8),
      (''I'', 1, 9), (''R'', -1, 9)]"

definition zd_map :: "string \<Rightarrow> (int \<times> int) option" where
  "zd_map = map_of zd_map_entries"

text \<open>
  \<open>zd_convertor\<close> decodes a whole series.  \<open>n\<close> is the length of the first element
  (\<^verbatim>\<open>zd_format_series[0]\<close> raises \<^verbatim>\<open>KeyError\<close> on an empty series).  Every element is cut at
  \<open>n - 1\<close>: the part before is converted with \<^verbatim>\<open>astype('int64')\<close> (line 72, for all
  elements, before anything else), the part from \<open>n - 1\<close> on is looked up in \<open>zd_map\<close>
  (line 74); building the frame of signs and values (line 77) raises when a lookup gave
  NaN.  The arithmetic of line 79 is on \<^verbatim>\<open>int64\<close> columns and wraps around.
\<close>

definition zd_combine :: "int64 \<Rightarrow> int \<times> int \<Rightarrow> int64" where
  "zd_combine front sv = (front * 10 + word_of_int (snd sv)) * word_of_int (fst sv)"

definition zd_convertor :: "string list \<Rightarrow> error + int64 list" where
  "zd_convertor zd_format_series =
     (case zd_format_series of
        [] \<Rightarrow> Inl KeyError
      | first # _ \<Rightarrow>
          let n = int (length first) in
          (case mapM (\<lambda>s. astype_int64 (py_slice None (Some (n - 1)) s)) zd_format_series of
             Inl e \<Rightarrow> Inl e
           | Inr front_digits \<Rightarrow>
               let zd_code = map (py_slice (Some (n - 1)) None) zd_format_series;
                   zdc_mapped = map zd_map zd_code
               in if None \<in> set zdc_mapped then Inl DecodeError
                  else Inr (map2 zd_combine front_digits (map the zdc_mapped))))"

text \<open>Decoding one string is decoding the series that holds it alone.\<close>

definition zd_decode :: "string \<Rightarrow> error + int64" where
  "zd_decode s = (case zd_convertor [s] of Inl e \<Rightarrow> Inl e | Inr r \<Rightarrow> Inr (hd r))"

section \<open>Field extraction \<open>_extract\<close>\<close>

text \<open>
  \<open>Processor_extract\<close> is \<^verbatim>\<open>_extract\<close>: \<open>comps.str.slice(start, stop)\<close> slices every record, the
  year is \<^verbatim>\<open>self.folder[:2]\<close>.  The result is the frame of \<^verbatim>\<open>pd.concat(..., axis=1)\<close>,
  whose four columns have no names yet: a row is the tuple (scale, primary,
  primary_short, asset).  With a folder of another year no branch assigns the columns
  and line 118 raises \<^verbatim>\<open>UnboundLocalError\<close>.  An empty list of records is an empty series
  of dtype object (pandas 2), which the string accessor takes.
\<close>

type_synonym raw_row = "string \<times> string \<times> string \<times> int64"

definition concat_columns ::
  "string list \<Rightarrow> string list \<Rightarrow> string list \<Rightarrow> int64 list \<Rightarrow> raw_row list" where
  "concat_columns scale primary primary_short asset =
     zip scale (zip primary (zip primary_short asset))"

definition Processor_extract :: "string \<Rightarrow> string list \<Rightarrow> error + raw_row list" where
  "Processor_extract folder company_list =
     (let comps = company_list in
      if py_slice None (Some 2) folder = ''85'' then
        (let scale = map (py_slice (Some 7) (Some 8)) comps;
             primary = map (py_slice (Some 13) (Some 17)) comps;
             primary_short = map (py_slice (Some 0) (Some 2)) primary
         in case zd_convertor (map (py_slice (Some 1138) (Some 1153)) comps) of
              Inl e \<Rightarrow> Inl e
            | Inr asset \<Rightarrow> Inr (concat_columns scale primary primary_short asset))
      else if py_slice None (Some 2) folder = ''90'' then
        (let scale = map (py_slice (Some 11) (Some 12)) comps;
             primary = map (py_slice (Some 13) (Some 17)) comps;
             primary_short = map (py_slice (Some 0) (Some 2)) primary
         in case mapM astype_int64 (map (py_slice (Some 1068) (Some 1083)) comps) of
              Inl e \<Rightarrow> Inl e
            | Inr asset \<Rightarrow> Inr (concat_columns scale primary primary_short asset))
      else if py_slice None (Some 2) folder = ''95'' then
        (let scale = map (py_slice (Some 1) (Some 2)) comps;
             primary = map (py_slice (Some 2) (Some 6)) comps;
             primary_short = map (py_slice (Some 0) (Some 2)) primary
         in case zd_convertor (map (py_slice (Some 245) (Some 260)) comps) of
              Inl e \<Rightarrow> Inl e
            | Inr asset \<Rightarrow> Inr (concat_columns scale primary primary_short asset))
      else Inl UnboundLocalError)"

section \<open>The processor and its state\<close>

text \<open>
  A row of the stored frame, with the column names \<open>collect_data\<close> gives (line 152).
  The frame has four columns after collection and five once \<open>sic_mapping\<close> has added
  \<open>isic\<close>; a cell of the classification column is \<open>None\<close> when it is NaN.
  \<open>data\<close> is \<^verbatim>\<open>self.__data\<close>, \<open>None\<close> being Python's \<^verbatim>\<open>None\<close>.
\<close>

record row =
  scale :: string
  primary :: string
  roc_sic :: string
  asset :: int64

datatype 'v frame = Extracted "row list" | Annotated "(row \<times> 'v option) list"

record 'v processor =
  upperlayer_folder :: string
  folder :: string
  extracted :: bool
  data :: "'v frame option"

text \<open>What \<^verbatim>\<open>print\<close> wrote: a line of text, or the rendering of the stored frame.\<close>

datatype 'v printed = Line string | Table "'v frame option"

definition Processor_init :: "string \<Rightarrow> string \<Rightarrow> 'v processor" where
  "Processor_init uf f =
     \<lparr>upperlayer_folder = uf, folder = f, extracted = False, data = None\<rparr>"

definition warn_data_not_collected :: string where
  "warn_data_not_collected = ''Not yet processed, please collect the data first.''"

subsection \<open>\<open>collect_data\<close>\<close>

text \<open>\<^verbatim>\<open>text.decode('ascii', 'ignore')\<close> drops the bytes from 128 on;
  \<^verbatim>\<open>text.split("\r\n")\<close> cuts at every carriage return followed by a line feed.\<close>

definition decode_ascii_ignore :: "string \<Rightarrow> string" where
  "decode_ascii_ignore bytes = filter (\<lambda>c. (of_char c :: nat) < 128) bytes"

fun cons_head :: "'a \<Rightarrow> 'a list list \<Rightarrow> 'a list list" where
  "cons_head c [] = [[c]]"
| "cons_head c (x # xs) = (c # x) # xs"

fun split_crlf :: "string \<Rightarrow> string list" where
  "split_crlf [] = [[]]"
| "split_crlf [c] = [[c]]"
| "split_crlf (c # d # cs) =
     (if c = CHR 0x0D \<and> d = CHR 0x0A then [] # split_crlf cs
      else cons_head c (split_crlf (d # cs)))"

text \<open>
  The directory is a parameter: \<open>None\<close> when \<^verbatim>\<open>listdir\<close> finds no such directory, else
  its entries in the order of \<^verbatim>\<open>listdir\<close>, each with its name, whether it is a file, and
  its bytes.  The loop of lines 138 to 150 reads one file after the other; a file's
  line is printed once its rows are appended.  \<open>collect_files\<close> returns the lines
  printed and the rows read.
\<close>

type_synonym dir_entry = "string \<times> bool \<times> string"

definition target_files :: "dir_entry list \<Rightarrow> (string \<times> string) list" where
  "target_files entries =
     map (\<lambda>(f, is_file, bytes). (f, bytes))
       (filter (\<lambda>(f, is_file, bytes). is_file \<and> CHR ''.'' \<notin> set f) entries)"

definition companies_raw :: "string \<Rightarrow> string list" where
  "companies_raw bytes = py_slice None (Some (- 1)) (split_crlf (decode_ascii_ignore bytes))"

fun collect_files ::
  "string \<Rightarrow> (string \<times> string) list \<Rightarrow> string list \<times> (error + raw_row list)" where
  "collect_files fld [] = ([], Inr [])"
| "collect_files fld ((cur_file, bytes) # rest) =
     (case Processor_extract fld (companies_raw bytes) of
        Inl e \<Rightarrow> ([], Inl e)
      | Inr rows \<Rightarrow>
          (case collect_files fld rest of
             (out, Inl e) \<Rightarrow> ((''File '' @ cur_file @ '' finished.'') # out, Inl e)
           | (out, Inr rows2) \<Rightarrow>
               ((''File '' @ cur_file @ '' finished.'') # out, Inr (rows @ rows2))))"

definition name_columns :: "raw_row \<Rightarrow> row" where
  "name_columns r =
     (case r of (c0, c1, c2, c3) \<Rightarrow> \<lparr>scale = c0, primary = c1, roc_sic = c2, asset = c3\<rparr>)"

text \<open>
  Line 152 renames the columns of \<open>data_out\<close>.  \<open>data_out\<close> starts as \<^verbatim>\<open>self.__data\<close>.
  When that is \<^verbatim>\<open>None\<close>, \<^verbatim>\<open>pd.concat\<close> drops it and \<open>data_out\<close> is the frame of the rows
  read, or still \<^verbatim>\<open>None\<close> when there was no file (\<^verbatim>\<open>AttributeError\<close>).  When a frame is
  stored already, a file read adds four unnamed columns to its named ones, and a frame
  with the \<open>isic\<close> column has five: the four names do not fit (\<^verbatim>\<open>ValueError\<close>).
\<close>

definition set_columns ::
  "'v frame option \<Rightarrow> (string \<times> string) list \<Rightarrow> raw_row list \<Rightarrow> error + 'v frame" where
  "set_columns stored files rows =
     (case stored of
        None \<Rightarrow> if files = [] then Inl AttributeError else Inr (Extracted (map name_columns rows))
      | Some (Extracted rs) \<Rightarrow> if files = [] then Inr (Extracted rs) else Inl ValueError
      | Some (Annotated rs) \<Rightarrow> Inl ValueError)"

definition collect_data ::
  "'v processor \<Rightarrow> dir_entry list option \<Rightarrow> 'v printed list \<times> (error + 'v processor)" where
  "collect_data p dir =
     (if folder p = [] then ([Line ''Please specify a folder''], Inr p)
      else if py_slice None (Some 2) (folder p) \<notin> set [''85'', ''90'', ''95'']
      then ([Line ''Destined year not yet finished.''], Inr p)
      else
        (let start = Line ([CHR 0x0A] @ ''Start collection data from folder '' @ [CHR 0x22]
                       @ folder p @ [CHR 0x22] @ ''...'')
         in case dir of
              None \<Rightarrow> ([start], Inl FileNotFoundError)
            | Some entries \<Rightarrow>
                (case collect_files (folder p) (target_files entries) of
                   (out, Inl e) \<Rightarrow> (start # map Line out, Inl e)
                 | (out, Inr rows) \<Rightarrow>
                     (case set_columns (data p) (target_files entries) rows of
                        Inl e \<Rightarrow> (start # map Line out, Inl e)
                      | Inr data_out \<Rightarrow>
                          (start # map Line out @
                             [Line (''Data collection from folder '' @ [CHR 0x22] @ folder p
                                @ [CHR 0x22] @ '' is completed.'')],
                           Inr (p\<lparr>extracted := True, data := Some data_out\<rparr>))))))"

subsection \<open>\<open>apply_conditions\<close>\<close>

text \<open>Both parameters are ignored by the source: the condition is written out
  (\<^verbatim>\<open>cond1 = (self.__data['scale'] != "8")\<close>), and \<^verbatim>\<open>keep_original_data\<close> only
  reaches a \<^verbatim>\<open>pass\<close>.\<close>

definition filter_frame :: "(row \<Rightarrow> bool) \<Rightarrow> 'v frame \<Rightarrow> 'v frame" where
  "filter_frame cond f =
     (case f of
        Extracted rs \<Rightarrow> Extracted (filter cond rs)
      | Annotated rs \<Rightarrow> Annotated (filter (\<lambda>(r, c). cond r) rs))"

definition apply_conditions ::
  "'v processor \<Rightarrow> bool \<Rightarrow> (string \<times> string list) list \<Rightarrow>
     'v printed list \<times> (error + 'v processor)" where
  "apply_conditions p keep_original_data conds =
     (if \<not> extracted p then ([Line warn_data_not_collected], Inr p)
      else
        (case data p of
           None \<Rightarrow> ([], Inl TypeError)
         | Some f \<Rightarrow> ([], Inr (p\<lparr>data := Some (filter_frame (\<lambda>r. scale r \<noteq> ''8'') f)\<rparr>))))"

subsection \<open>\<open>sic_mapping\<close>\<close>

text \<open>
  A row of the sheet read from the reference workbook.  The three code-list cells are
  taken after \<^verbatim>\<open>astype('string')\<close>: \<open>None\<close> is an empty cell (\<^verbatim>\<open><NA>\<close>), on which the loop
  of line 203 raises \<^verbatim>\<open>TypeError\<close>.  \<open>ISIC_Rev3\<close> is \<open>None\<close> for an empty cell (NaN).
\<close>

record 'v sic_row =
  ISIC_Rev3 :: "'v option"
  ROCSIC_6 :: "string option"
  ROCSIC_7 :: "string option"
  ROCSIC_8 :: "string option"

fun split_comma :: "string \<Rightarrow> string list" where
  "split_comma [] = [[]]"
| "split_comma (c # cs) =
     (if c = CHR '','' then [] # split_comma cs else cons_head c (split_comma cs))"

definition isnumeric :: "string \<Rightarrow> bool" where
  "isnumeric k = (k \<noteq> [] \<and> list_all is_digit k)"

text \<open>Lines 204 and 205: the key under which a code is stored.\<close>

definition pad_code :: "string \<Rightarrow> error + string" where
  "pad_code k =
     (if isnumeric k then
        (case py_int k of
           None \<Rightarrow> Inl ValueError
         | Some v \<Rightarrow> if v < 10 then Inr (''0'' @ k) else Inr k)
      else Inr k)"

type_synonym 'v isic_dict = "string \<Rightarrow> 'v option option"

fun insert_codes :: "'v isic_dict \<Rightarrow> 'v option \<Rightarrow> string list \<Rightarrow> error + 'v isic_dict" where
  "insert_codes d isic [] = Inr d"
| "insert_codes d isic (k # ks) =
     (case pad_code k of
        Inl e \<Rightarrow> Inl e
      | Inr k' \<Rightarrow> insert_codes (d(k' \<mapsto> isic)) isic ks)"

fun insert_rows ::
  "'v isic_dict \<Rightarrow> (string list option \<times> 'v option) list \<Rightarrow> error + 'v isic_dict" where
  "insert_rows d [] = Inr d"
| "insert_rows d ((codes, isic) # rest) =
     (case codes of
        None \<Rightarrow> Inl TypeError
      | Some ks \<Rightarrow>
          (case insert_codes d isic ks of
             Inl e \<Rightarrow> Inl e
           | Inr d' \<Rightarrow> insert_rows d' rest))"

definition code_using :: "string \<Rightarrow> ('v sic_row \<Rightarrow> string option) option" where
  "code_using fld =
     (if py_slice None (Some 2) fld = ''85'' then Some ROCSIC_6
      else if py_slice None (Some 2) fld = ''90'' then Some ROCSIC_7
      else if py_slice None (Some 2) fld = ''95'' then Some ROCSIC_8
      else None)"

text \<open>Lines 191 to 206: the dictionary \<open>rocsic_to_isic\<close> built from the sheet.\<close>

definition rocsic_to_isic :: "string \<Rightarrow> 'v sic_row list \<Rightarrow> error + 'v isic_dict" where
  "rocsic_to_isic fld sic_tb =
     (case code_using fld of
        None \<Rightarrow> Inl UnboundLocalError
      | Some col \<Rightarrow>
          insert_rows Map.empty
            (map (\<lambda>r. (map_option split_comma (col r), ISIC_Rev3 r)) sic_tb))"

text \<open>Line 209: \<^verbatim>\<open>self.__data['roc_sic'].map(rocsic_to_isic).fillna(rocsic_to_isic['Else'])\<close>.
  A code that is no key, and a key whose cell is NaN, both give NaN, which \<^verbatim>\<open>fillna\<close>
  replaces.\<close>

definition lookup_isic :: "'v isic_dict \<Rightarrow> 'v option \<Rightarrow> string \<Rightarrow> 'v option" where
  "lookup_isic d dflt code =
     (case d code of Some (Some v) \<Rightarrow> Some v | _ \<Rightarrow> dflt)"

definition frame_rows :: "'v frame \<Rightarrow> row list" where
  "frame_rows f = (case f of Extracted rs \<Rightarrow> rs | Annotated rs \<Rightarrow> map fst rs)"

definition sic_mapping ::
  "'v processor \<Rightarrow> 'v sic_row list \<Rightarrow> 'v printed list \<times> (error + 'v processor)" where
  "sic_mapping p sic_tb =
     (if \<not> extracted p then ([Line warn_data_not_collected], Inr p)
      else
        (case rocsic_to_isic (folder p) sic_tb of
           Inl e \<Rightarrow> ([], Inl e)
         | Inr d \<Rightarrow>
             (case data p of
                None \<Rightarrow> ([], Inl TypeError)
              | Some f \<Rightarrow>
                  (case d ''Else'' of
                     None \<Rightarrow> ([], Inl KeyError)
                   | Some dflt \<Rightarrow>
                       ([], Inr (p\<lparr>data := Some (Annotated
                          (map (\<lambda>r. (r, lookup_isic d dflt (roc_sic r))) (frame_rows f)))\<rparr>))))))"

subsection \<open>\<open>show_data\<close>, \<open>get_data\<close> and \<open>output_CSV\<close>\<close>

text \<open>None of the three assigns a field of the processor.  \<open>output_CSV\<close> returns the
  file it writes: its name and the frame written.\<close>

definition show_data :: "'v processor \<Rightarrow> 'v printed list \<times> (error + unit)" where
  "show_data p =
     (if \<not> extracted p then ([Line warn_data_not_collected], Inr ())
      else ([Table (data p)], Inr ()))"

definition get_data :: "'v processor \<Rightarrow> 'v printed list \<times> 'v frame option" where
  "get_data p =
     ((if \<not> extracted p then [Line warn_data_not_collected] else []), data p)"

definition output_CSV :: "'v processor \<Rightarrow> 'v printed list \<times> (error + string \<times> 'v frame)" where
  "output_CSV p =
     ((if \<not> extracted p then [Line warn_data_not_collected] else []),
      (case data p of
         None \<Rightarrow> Inl AttributeError
       | Some f \<Rightarrow> Inr (py_slice None (Some 3) (folder p) @ ''_extracted.csv'', f)))"

text \<open>The states a processor goes through: created, then changed by the three methods
  that assign its fields.  A call that raises leaves the state as it was.\<close>

inductive reachable :: "'v processor \<Rightarrow> bool" where
  init: "reachable (Processor_init uf f)"
| collect: "reachable p \<Longrightarrow> collect_data p dir = (out, Inr p') \<Longrightarrow> reachable p'"
| conditions: "reachable p \<Longrightarrow> apply_conditions p k conds = (out, Inr p') \<Longrightarrow> reachable p'"
| mapping: "reachable p \<Longrightarrow> sic_mapping p sic_tb = (out, Inr p') \<Longrightarrow> reachable p'"

section \<open>The specification's notions\<close>

text \<open>The integer value of a string of decimal digits.\<close>

definition dec_value :: "string \<Rightarrow> int" where
  "dec_value ds = foldl (\<lambda>a c. a * 10 + digit_val c) 0 ds"

text \<open>An element \<open>s\<close> of a series decodes to \<open>r\<close> when cut at position \<open>p\<close>.\<close>

definition decoded_at :: "int \<Rightarrow> string \<Rightarrow> int64 \<Rightarrow> bool" where
  "decoded_at p s r \<longleftrightarrow>
     (\<exists>front sv. astype_int64 (py_slice None (Some p) s) = Inr front \<and>
        zd_map (py_slice (Some p) None s) = Some sv \<and> r = zd_combine front sv)"

text \<open>The schema table of the specification: for each supported year the offset and
  length of the three fields, counted from 0, and the encoding of the asset field.
  Year A is the year 85, Year B the year 90, Year C the year 95.\<close>

datatype year = YearA | YearB | YearC

datatype encoding = PlainInteger | ZonedDecimal

record schema =
  scale_field :: "nat \<times> nat"
  primary_field :: "nat \<times> nat"
  asset_field :: "nat \<times> nat"
  asset_encoding :: encoding

definition schema_table :: "year \<Rightarrow> schema" where
  "schema_table y =
     (case y of
        YearA \<Rightarrow> \<lparr>scale_field = (7, 1), primary_field = (13, 4), asset_field = (1138, 15),
                  asset_encoding = ZonedDecimal\<rparr>
      | YearB \<Rightarrow> \<lparr>scale_field = (11, 1), primary_field = (13, 4), asset_field = (1068, 15),
                  asset_encoding = PlainInteger\<rparr>
      | YearC \<Rightarrow> \<lparr>scale_field = (1, 1), primary_field = (2, 4), asset_field = (245, 15),
                  asset_encoding = ZonedDecimal\<rparr>)"

definition year_prefix :: "year \<Rightarrow> string" where
  "year_prefix y = (case y of YearA \<Rightarrow> ''85'' | YearB \<Rightarrow> ''90'' | YearC \<Rightarrow> ''95'')"

text \<open>The field of a record at an offset, of a length.\<close>

definition field :: "nat \<times> nat \<Rightarrow> string \<Rightarrow> string" where
  "field ol s = take (snd ol) (drop (fst ol) s)"

text \<open>Extraction as the specification words it: slice the three fields by the schema,
  take the first two characters of the primary code as its short form, and decode the
  asset fields by the declared encoding.\<close>

definition schema_extract :: "schema \<Rightarrow> string list \<Rightarrow> error + raw_row list" where
  "schema_extract sc recs =
     (case (case asset_encoding sc of
              ZonedDecimal \<Rightarrow> zd_convertor (map (field (asset_field sc)) recs)
            | PlainInteger \<Rightarrow> mapM astype_int64 (map (field (asset_field sc)) recs)) of
        Inl e \<Rightarrow> Inl e
      | Inr assets \<Rightarrow>
          Inr (map2 (\<lambda>r a. (field (scale_field sc) r, field (primary_field sc) r,
                            take 2 (field (primary_field sc) r), a)) recs assets))"

text \<open>The padding rule as the specification words it: a code that is purely numeric and
  represents a value under 10 gets a single 0 in front, any other code is unchanged.\<close>

definition spec_pad :: "string \<Rightarrow> string" where
  "spec_pad k =
     (if k \<noteq> [] \<and> list_all is_digit k \<and> dec_value k < 10 then CHR ''0'' # k else k)"

text \<open>The keys a row of the sheet contributes, for the code-list column \<open>col\<close>.\<close>

definition row_keys :: "('v sic_row \<Rightarrow> string option) \<Rightarrow> 'v sic_row \<Rightarrow> string set" where
  "row_keys col r = (case col r of None \<Rightarrow> {} | Some s \<Rightarrow> spec_pad ` set (split_comma s))"

section \<open>Example inputs\<close>

text \<open>A record of the year 95 of 260 characters: scale 3 at offset 1, primary code 0512
  at offset 2, and the asset field 00000000000788D at offset 245; a directory with one
  file that holds this record; a reference sheet with and without the default row.\<close>

definition example_record :: string where
  "example_record = ''030512'' @ replicate 239 (CHR ''0'') @ ''00000000000788D''"

definition example_record8 :: string where
  "example_record8 = ''089900'' @ replicate 239 (CHR ''0'') @ ''00000000000012}''"

definition example_dir :: "dir_entry list" where
  "example_dir =
     [(''a'', True, example_record @ [CHR 0x0D, CHR 0x0A] @ example_record8 @ [CHR 0x0D, CHR 0x0A]),
      (''notes.txt'', True, ''skipped''),
      (''sub'', False, [])]"

definition example_row :: row where
  "example_row = \<lparr>scale = ''3'', primary = ''0512'', roc_sic = ''05'', asset = 7884\<rparr>"

definition example_row8 :: row where
  "example_row8 = \<lparr>scale = ''8'', primary = ''9900'', roc_sic = ''99'', asset = - 120\<rparr>"

definition example_collected :: "string processor" where
  "example_collected =
     \<lparr>upperlayer_folder = ''census'', folder = ''95x'', extracted = True,
      data = Some (Extracted [example_row, example_row8])\<rparr>"

definition example_annotated :: "string processor" where
  "example_annotated =
     example_collected\<lparr>data :=
       Some (Annotated [(example_row, Some ''D''), (example_row8, Some ''Z'')])\<rparr>"

definition example_filtered :: "string processor" where
  "example_filtered = example_collected\<lparr>data := Some (Extracted [example_row])\<rparr>"

definition example_sheet_no_else :: "string sic_row list" where
  "example_sheet_no_else =
     [\<lparr>ISIC_Rev3 = Some ''D'', ROCSIC_6 = Some ''1'', ROCSIC_7 = Some ''2'',
       ROCSIC_8 = Some ''5,6''\<rparr>]"

definition example_sheet :: "string sic_row list" where
  "example_sheet =
     example_sheet_no_else @
     [\<lparr>ISIC_Rev3 = Some ''Z'', ROCSIC_6 = Some ''Else'', ROCSIC_7 = Some ''Else'',
       ROCSIC_8 = Some ''Else''\<rparr>]"

section \<open>Lemmas on the primitives and the decoder\<close>
lemma mapM_Inr_iff:
  "mapM f xs = Inr ys \<longleftrightarrow> list_all2 (\<lambda>x y. f x = Inr y) xs ys"
proof (induction xs arbitrary: ys)
  case Nil
  show ?case by auto
next
  case (Cons x xs)
  show ?case
  proof (cases "f x")
    case (Inl e)
    then show ?thesis by (cases ys) auto
  next
    case fx: (Inr y)
    show ?thesis
    proof (cases "mapM f xs")
      case (Inl e)
      with Cons.IH have "\<And>zs. \<not> list_all2 (\<lambda>x y. f x = Inr y) xs zs" by simp
      with fx Inl show ?thesis by (cases ys) auto
    next
      case (Inr zs)
      with Cons.IH have "\<And>ws. list_all2 (\<lambda>x y. f x = Inr y) xs ws \<longleftrightarrow> zs = ws" by simp
      with fx Inr show ?thesis by (cases ys) auto
    qed
  qed
qed

lemma py_slice_None_Some_nonneg:
  "0 \<le> j \<Longrightarrow> py_slice None (Some j) s = take (nat j) s"
  by (auto simp: py_slice_def py_index_def min_def)

lemma py_slice_Some_None_nonneg:
  "0 \<le> i \<Longrightarrow> py_slice (Some i) None s = drop (nat i) s"
  by (auto simp: py_slice_def py_index_def min_def)

lemma py_slice_Some_Some_nonneg:
  "0 \<le> i \<Longrightarrow> 0 \<le> j \<Longrightarrow> py_slice (Some i) (Some j) s = take (nat j - nat i) (drop (nat i) s)"
  by (auto simp: py_slice_def py_index_def min_def Let_def)

lemma py_slice_front_own:
  "py_slice None (Some (int (length s) - 1)) s = butlast s"
  by (cases "s = []") (auto simp: py_slice_def py_index_def butlast_conv_take nat_diff_distrib')

lemma py_slice_code_own:
  "s \<noteq> [] \<Longrightarrow> py_slice (Some (int (length s) - 1)) None s = [last s]"
proof -
  assume ne: "s \<noteq> []"
  then have "nat (int (length s) - 1) = length s - 1" by simp
  with ne have "drop (nat (int (length s) - 1)) s = [last s]"
    by (metis append_butlast_last_id append_eq_conv_conj length_butlast)
  with ne show ?thesis
    by (simp add: py_slice_def py_index_def)
qed

lemma length_py_slice_code:
  "length (py_slice (Some (int n - 1)) None s) = 1 \<Longrightarrow> n = 0 \<or> length s = n"
  by (auto simp: py_slice_def py_index_def split: if_splits)

lemma is_digit_not_space: "is_digit c \<Longrightarrow> \<not> py_isspace c"
  by (auto simp: is_digit_def py_isspace_def)

lemma py_strip_id:
  assumes "s \<noteq> []" "\<not> py_isspace (hd s)" "\<not> py_isspace (last s)"
  shows "py_strip s = s"
proof -
  from assms have 1: "dropWhile py_isspace s = s"
    by (cases s) auto
  from assms have "rev s \<noteq> []" "\<not> py_isspace (hd (rev s))"
    by (simp_all add: hd_rev)
  then have 2: "dropWhile py_isspace (rev s) = rev s"
    by (cases "rev s") auto
  show ?thesis by (simp add: py_strip_def 1 2)
qed

lemma py_digits_all_digits:
  "\<forall>c\<in>set ds. is_digit c \<Longrightarrow> py_digits acc ds = Some (foldl (\<lambda>a c. a * 10 + digit_val c) acc ds)"
  by (induction acc ds rule: py_digits.induct) auto

lemma is_digit_not_sign: "is_digit c \<Longrightarrow> c \<noteq> CHR ''-'' \<and> c \<noteq> CHR ''+''"
  by (auto simp: is_digit_def)

lemma py_int_digits:
  assumes "ds \<noteq> []" "\<forall>c\<in>set ds. is_digit c"
  shows "py_int ds = Some (dec_value ds)"
proof -
  from assms have "is_digit (hd ds)" "is_digit (last ds)" by auto
  with assms have s: "py_strip ds = ds"
    by (intro py_strip_id is_digit_not_space) auto
  from assms obtain c cs where ds: "ds = c # cs" by (cases ds) auto
  with assms have c: "is_digit c" and cs: "\<forall>x\<in>set cs. is_digit x" by auto
  have "py_unsigned (c # cs) = Some (dec_value (c # cs))"
    using c by (simp add: py_unsigned_def py_digits_all_digits[OF cs] dec_value_def)
  moreover from s ds have "py_strip (c # cs) = c # cs" by simp
  ultimately show ?thesis
    using is_digit_not_sign[OF c] by (simp add: py_int_def ds)
qed

lemma foldl_dec_bounds:
  "\<forall>c\<in>set ds. is_digit c \<Longrightarrow> 0 \<le> a \<Longrightarrow>
     a * 10 ^ length ds \<le> foldl (\<lambda>a c. a * 10 + digit_val c) a ds \<and>
     foldl (\<lambda>a c. a * 10 + digit_val c) a ds < (a + 1) * 10 ^ length ds"
proof (induction ds arbitrary: a)
  case Nil
  then show ?case by simp
next
  case (Cons c ds)
  then have d: "0 \<le> digit_val c" "digit_val c \<le> 9"
    by (auto simp: is_digit_def digit_val_def)
  let ?b = "a * 10 + digit_val c"
  from Cons.prems d have b: "0 \<le> ?b" by simp
  from Cons.prems have "\<forall>c\<in>set ds. is_digit c" by simp
  from Cons.IH[OF this b] have ih:
    "?b * 10 ^ length ds \<le> foldl (\<lambda>a c. a * 10 + digit_val c) ?b ds"
    "foldl (\<lambda>a c. a * 10 + digit_val c) ?b ds < (?b + 1) * 10 ^ length ds" by auto
  have A: "a * 10 * 10 ^ length ds \<le> ?b * 10 ^ length ds"
    using d by (intro mult_right_mono) auto
  have B: "(?b + 1) * 10 ^ length ds \<le> (a + 1) * 10 * 10 ^ length ds"
    using d by (intro mult_right_mono) auto
  have e1: "a * 10 ^ length (c # ds) = a * 10 * 10 ^ length ds" by simp
  have e2: "(a + 1) * 10 ^ length (c # ds) = (a + 1) * 10 * 10 ^ length ds" by simp
  have e3: "foldl (\<lambda>a c. a * 10 + digit_val c) a (c # ds) = foldl (\<lambda>a c. a * 10 + digit_val c) ?b ds"
    by simp
  show ?case unfolding e1 e2 e3 using ih A B by linarith
qed

lemma dec_value_bounds:
  "\<forall>c\<in>set ds. is_digit c \<Longrightarrow> 0 \<le> dec_value ds \<and> dec_value ds < 10 ^ length ds"
  using foldl_dec_bounds[of ds 0] by (simp add: dec_value_def)

lemma zd_map_SomeD:
  "zd_map k = Some (sg, d) \<Longrightarrow> (sg = 1 \<or> sg = -1) \<and> 0 \<le> d \<and> d \<le> 9 \<and> length k = 1"
  by (auto simp: zd_map_def zd_map_entries_def split: if_splits)

lemma zd_frame_Inr_iff:
  "(case mapM F zs of
      Inl e \<Rightarrow> Inl e
    | Inr fd \<Rightarrow>
        if None \<in> set (map G zs) then Inl DecodeError
        else Inr (map2 zd_combine fd (map the (map G zs)))) = Inr rs
   \<longleftrightarrow> list_all2 (\<lambda>s r. \<exists>f sv. F s = Inr f \<and> G s = Some sv \<and> r = zd_combine f sv) zs rs"
proof (induction zs arbitrary: rs)
  case Nil
  show ?case by auto
next
  case (Cons z zs)
  show ?case
  proof (cases "F z")
    case (Inl e)
    then show ?thesis by (cases rs) auto
  next
    case Fz: (Inr f)
    show ?thesis
    proof (cases "mapM F zs")
      case (Inl e)
      with Cons.IH[of rs] Cons.IH[of "tl rs"] Fz show ?thesis
        by (cases rs) auto
    next
      case fd: (Inr fd)
      show ?thesis
      proof (cases "G z")
        case None
        with Fz fd show ?thesis by (cases rs) auto
      next
        case (Some sv)
        with Fz fd Cons.IH[of "tl rs"] show ?thesis
          by (cases rs; cases sv) (auto split: if_splits)
      qed
    qed
  qed
qed

lemma zd_convertor_nonempty:
  "zs \<noteq> [] \<Longrightarrow> zd_convertor zs =
     (case mapM (\<lambda>s. astype_int64 (py_slice None (Some (int (length (hd zs)) - 1)) s)) zs of
        Inl e \<Rightarrow> Inl e
      | Inr fd \<Rightarrow>
          if None \<in> set (map (\<lambda>s. zd_map (py_slice (Some (int (length (hd zs)) - 1)) None s)) zs)
          then Inl DecodeError
          else Inr (map2 zd_combine fd
                 (map the (map (\<lambda>s. zd_map (py_slice (Some (int (length (hd zs)) - 1)) None s)) zs))))"
  by (cases zs, simp, simp only: zd_convertor_def list.case list.sel Let_def map_map comp_def)

lemma zd_convertor_Inr_iff:
  "zd_convertor zs = Inr rs \<longleftrightarrow>
     zs \<noteq> [] \<and> list_all2 (decoded_at (int (length (hd zs)) - 1)) zs rs"
proof (cases "zs = []")
  case True
  then show ?thesis by (simp add: zd_convertor_def)
next
  case False
  then show ?thesis
    unfolding decoded_at_def[abs_def]
    by (simp only: zd_convertor_nonempty[OF False] zd_frame_Inr_iff not_False_eq_True simp_thms)
qed

lemma zd_decode_Inr_iff:
  "zd_decode s = Inr r \<longleftrightarrow> decoded_at (int (length s) - 1) s r"
proof -
  have "zd_decode s = Inr r \<longleftrightarrow> (\<exists>rs. zd_convertor [s] = Inr rs \<and> hd rs = r)"
    by (auto simp: zd_decode_def split: sum.splits)
  also have "\<dots> \<longleftrightarrow> decoded_at (int (length s) - 1) s r"
    by (auto simp: zd_convertor_Inr_iff list_all2_Cons1)
  finally show ?thesis .
qed

lemma zd_combine_sint:
  assumes "0 \<le> v" "0 \<le> d" "sg = 1 \<or> sg = -1" "10 * v + d < 2 ^ 63"
  shows "sint (zd_combine (word_of_int v) (sg, d)) = sg * (10 * v + d)"
proof -
  define x where "x = (v * 10 + d) * sg"
  have eq: "zd_combine (word_of_int v) (sg, d) = (word_of_int x :: int64)"
    by (simp add: zd_combine_def x_def)
  from assms have "- (2 ^ 63) \<le> x" "x < 2 ^ 63"
    by (auto simp: x_def)
  then have "signed_take_bit 63 x = x"
    by (rule signed_take_bit_int_eq_self)
  then have "sint (word_of_int x :: int64) = x"
    by (simp add: sint_sbintrunc')
  then show ?thesis
    unfolding eq by (simp add: x_def mult.commute)
qed

lemma zd_decode_digits:
  assumes ne: "ds \<noteq> []" and dig: "\<forall>x\<in>set ds. is_digit x"
    and sym: "zd_map [c] = Some (sg, d)" and fit: "10 * dec_value ds + d < 2 ^ 63"
  shows "zd_decode (ds @ [c]) = Inr (zd_combine (word_of_int (dec_value ds)) (sg, d))"
proof -
  from zd_map_SomeD[OF sym] have d: "0 \<le> d" by simp
  from dec_value_bounds[OF dig] have v: "0 \<le> dec_value ds" by simp
  with d fit have "dec_value ds < 2 ^ 63" by linarith
  with v have "astype_int64 ds = Inr (word_of_int (dec_value ds))"
    by (simp add: astype_int64_def py_int_digits[OF ne dig])
  moreover have "py_slice None (Some (int (length (ds @ [c])) - 1)) (ds @ [c]) = ds"
    by (simp only: py_slice_front_own butlast_snoc)
  moreover have "py_slice (Some (int (length (ds @ [c])) - 1)) None (ds @ [c]) = [c]"
    by (subst py_slice_code_own) simp_all
  ultimately show ?thesis
    using sym unfolding zd_decode_Inr_iff decoded_at_def by auto
qed

lemma dec_value_fits:
  assumes dig: "\<forall>x\<in>set ds. is_digit x" and len: "length ds \<le> 17" and d: "d \<le> 9"
  shows "10 * dec_value ds + d < 2 ^ 63"
proof -
  from dec_value_bounds[OF dig] have "dec_value ds < 10 ^ length ds" by simp
  also from len have "(10::int) ^ length ds \<le> 10 ^ 17"
    by (intro power_increasing) auto
  finally have "dec_value ds < 10 ^ 17" .
  with d show ?thesis by simp
qed

lemma zd_decode_DecodeError_iff:
  assumes "s \<noteq> []"
  shows "zd_decode s = Inl DecodeError \<longleftrightarrow>
     (\<exists>v. astype_int64 (butlast s) = Inr v) \<and> zd_map [last s] = None"
proof -
  from assms have "py_slice (Some (int (length s) - 1)) None s = [last s]"
    by (rule py_slice_code_own)
  moreover have "py_slice None (Some (int (length s) - 1)) s = butlast s"
    by (rule py_slice_front_own)
  ultimately show ?thesis
    by (cases "astype_int64 (butlast s)")
       (auto simp: zd_decode_def zd_convertor_def astype_int64_def split: option.splits if_splits)
qed

lemma list_all2_cong_left:
  "(\<And>x y. x \<in> set xs \<Longrightarrow> P x y = Q x y) \<Longrightarrow> list_all2 P xs ys = list_all2 Q xs ys"
  by (auto simp: list_all2_conv_all_nth)

lemma zd_map_dom: "dom zd_map = fst ` set zd_map_entries"
  by (simp add: zd_map_def dom_map_of_conv_image_fst)

lemma zd_map_keys_distinct: "distinct (map fst zd_map_entries)"
  by (simp add: zd_map_entries_def)

lemma zd_decode_total_on_digits:
  assumes ne: "ds \<noteq> []" and dig: "\<forall>x\<in>set ds. is_digit x" and len: "length ds \<le> 18"
  shows "zd_decode (ds @ [c]) =
     (case zd_map [c] of None \<Rightarrow> Inl DecodeError
      | Some sv \<Rightarrow> Inr (zd_combine (word_of_int (dec_value ds)) sv))"
proof -
  from dec_value_bounds[OF dig] have v: "0 \<le> dec_value ds" "dec_value ds < 10 ^ length ds"
    by simp_all
  from len have "(10::int) ^ length ds \<le> 10 ^ 18"
    by (intro power_increasing) auto
  with v have "dec_value ds < 2 ^ 63" by simp
  with v have front: "astype_int64 ds = Inr (word_of_int (dec_value ds))"
    by (simp add: astype_int64_def py_int_digits[OF ne dig])
  show ?thesis
  proof (cases "zd_map [c]")
    case None
    with front show ?thesis
      using zd_decode_DecodeError_iff[of "ds @ [c]"] by simp
  next
    case (Some sv)
    have 1: "py_slice None (Some (int (length (ds @ [c])) - 1)) (ds @ [c]) = ds"
      by (simp only: py_slice_front_own butlast_snoc)
    have 2: "py_slice (Some (int (length (ds @ [c])) - 1)) None (ds @ [c]) = [c]"
      by (subst py_slice_code_own) simp_all
    have "decoded_at (int (length (ds @ [c])) - 1) (ds @ [c])
        (zd_combine (word_of_int (dec_value ds)) sv)"
      unfolding decoded_at_def 1 2 using Some front by blast
    with Some show ?thesis
      by (simp add: zd_decode_Inr_iff)
  qed
qed

lemma zd_convertor_length_mismatch:
  assumes "s \<in> set zs" "length s \<noteq> length (hd zs)"
  shows "\<exists>e. zd_convertor zs = Inl e"
proof (cases "zd_convertor zs")
  case (Inl e)
  then show ?thesis by simp
next
  case (Inr rs)
  let ?n = "length (hd zs)"
  from Inr have ne: "zs \<noteq> []" and all: "list_all2 (decoded_at (int ?n - 1)) zs rs"
    by (simp_all add: zd_convertor_Inr_iff)
  have one: "length (py_slice (Some (int ?n - 1)) None t) = 1" if "t \<in> set zs" for t
  proof -
    from that all obtain r where "decoded_at (int ?n - 1) t r"
      by (auto simp: list_all2_conv_all_nth in_set_conv_nth)
    then obtain sv where "zd_map (py_slice (Some (int ?n - 1)) None t) = Some sv"
      by (auto simp: decoded_at_def)
    then show ?thesis by (cases sv) (auto dest: zd_map_SomeD)
  qed
  from ne have "hd zs \<in> set zs" by simp
  from one[OF this] have "?n \<noteq> 0"
    by (auto simp: py_slice_def)
  with length_py_slice_code[OF one[OF assms(1)]] assms(2) show ?thesis by simp
qed

section \<open>The claims on the zoned-decimal decoder\<close>

text \<open>
  Claim C3, as the code has it.  The decoder works on 64-bit integers and reads the
  leading part with \<^verbatim>\<open>astype('int64')\<close>.  For every string of one or more decimal digits
  followed by a recognised sign symbol, with at most 17 leading digits or, more
  generally, with \<open>10 * v + d\<close> below \<open>2 ^ 63\<close> (\<open>v\<close> the value of the leading digits,
  \<open>d\<close> the decoded final digit), the decoder returns \<open>sign * (10 * v + d)\<close>.
  In particular 788D gives 7884, 788} gives -7880, and 000} gives 0 and no error.
\<close>

theorem zd_decode_value:
  "(ds \<noteq> [] \<and> list_all is_digit ds \<and> zd_map [c] = Some (sg, d) \<and>
      (length ds \<le> 17 \<or> 10 * dec_value ds + d < 2 ^ 63)
     \<longrightarrow> (\<exists>w. zd_decode (ds @ [c]) = Inr w \<and> sint w = sg * (10 * dec_value ds + d)))
   \<and> map_sum id sint (zd_decode ''788D'') = Inr 7884
   \<and> map_sum id sint (zd_decode ''788}'') = Inr (- 7880)
   \<and> map_sum id sint (zd_decode ''000}'') = Inr 0"
proof (intro conjI impI)
  assume h: "ds \<noteq> [] \<and> list_all is_digit ds \<and> zd_map [c] = Some (sg, d) \<and>
      (length ds \<le> 17 \<or> 10 * dec_value ds + d < 2 ^ 63)"
  then have ne: "ds \<noteq> []" and dig: "\<forall>x\<in>set ds. is_digit x" and sym: "zd_map [c] = Some (sg, d)"
    by (simp_all add: list_all_iff)
  from zd_map_SomeD[OF sym] have sd: "sg = 1 \<or> sg = - 1" "0 \<le> d" "d \<le> 9" by simp_all
  from h dec_value_fits[OF dig _ sd(3)] have fit: "10 * dec_value ds + d < 2 ^ 63" by blast
  from dec_value_bounds[OF dig] have v: "0 \<le> dec_value ds" by simp
  have "zd_decode (ds @ [c]) = Inr (zd_combine (word_of_int (dec_value ds)) (sg, d))"
    by (rule zd_decode_digits[OF ne dig sym fit])
  moreover have "sint (zd_combine (word_of_int (dec_value ds)) (sg, d)) = sg * (10 * dec_value ds + d)"
    by (rule zd_combine_sint[OF v sd(2) sd(1) fit])
  ultimately show "\<exists>w. zd_decode (ds @ [c]) = Inr w \<and> sint w = sg * (10 * dec_value ds + d)"
    by blast
next
  show "map_sum id sint (zd_decode ''788D'') = Inr 7884"
    by code_simp
next
  show "map_sum id sint (zd_decode ''788}'') = Inr (- 7880)"
    by code_simp
next
  show "map_sum id sint (zd_decode ''000}'') = Inr 0"
    by code_simp
qed

theorem zd_decode_value_witness:
  "list_all is_digit ''0012'' \<and> zd_map ''M'' = Some (- 1, 4) \<and>
   (\<exists>w. zd_decode ''0012M'' = Inr w \<and> sint w = - 124)"
proof -
  have h: "''0012'' \<noteq> [] \<and> list_all is_digit ''0012'' \<and> zd_map ''M'' = Some (- 1, 4) \<and>
      (length ''0012'' \<le> 17 \<or> 10 * dec_value ''0012'' + 4 < 2 ^ 63)"
    by (simp add: is_digit_def zd_map_def zd_map_entries_def)
  have v: "dec_value ''0012'' = 12"
    by (simp add: dec_value_def digit_val_def)
  from zd_decode_value[of "''0012''" "CHR ''M''" "- 1" 4, THEN conjunct1, THEN mp, OF h]
  have "\<exists>w. zd_decode ''0012M'' = Inr w \<and> sint w = - 1 * (10 * dec_value ''0012'' + 4)"
    by simp
  with h v show ?thesis by simp
qed

text \<open>
  The claim as written fails in two places: eighteen nines followed by I are digits
  and a recognised symbol, the claimed value is 9999999999999999999, and the 64-bit
  product wraps around; and the single symbol D, with no leading digit, is refused by
  the integer conversion.
\<close>

theorem zd_decode_counterexample:
  "list_all is_digit ''999999999999999999'' \<and> zd_map ''I'' = Some (1, 9) \<and>
   1 * (10 * dec_value ''999999999999999999'' + 9) = 9999999999999999999 \<and>
   map_sum id sint (zd_decode ''999999999999999999I'') = Inr (- 8446744073709551617) \<and>
   zd_map ''D'' = Some (1, 4) \<and> zd_decode ''D'' = Inl ValueError"
proof (intro conjI)
  show "list_all is_digit ''999999999999999999''"
    by (simp add: is_digit_def)
  show "zd_map ''I'' = Some (1, 9)" "zd_map ''D'' = Some (1, 4)"
    by (simp_all add: zd_map_def zd_map_entries_def)
  show "1 * (10 * dec_value ''999999999999999999'' + 9) = 9999999999999999999"
    by (simp add: dec_value_def digit_val_def)
  show "map_sum id sint (zd_decode ''999999999999999999I'') = Inr (- 8446744073709551617)"
    by code_simp
  show "zd_decode ''D'' = Inl ValueError"
    by code_simp
qed

text \<open>
  Claim C4, as the code has it.  The alphabet of sign symbols has exactly 20 members:
  ten give the final digits 0 to 9 with the positive sign (the opening brace and A to I)
  and ten give the final digits 0 to 9 with the negative sign (the closing brace and J to R).
  Decoding a non-empty string ends in the decoder's own error exactly when its leading
  part is accepted by the integer conversion and its last character is outside the
  alphabet; for a string of one to eighteen decimal digits followed by one more
  character, decoding fails exactly when that character is outside the alphabet, and
  then with that error.
\<close>

theorem zd_alphabet:
  "card (dom zd_map) = 20
   \<and> map (\<lambda>(k, sg, d). (k, d)) (filter (\<lambda>(k, sg, d). sg = 1) zd_map_entries) =
       [(''{'', 0), (''A'', 1), (''B'', 2), (''C'', 3), (''D'', 4),
        (''E'', 5), (''F'', 6), (''G'', 7), (''H'', 8), (''I'', 9)]
   \<and> map (\<lambda>(k, sg, d). (k, d)) (filter (\<lambda>(k, sg, d). sg = - 1) zd_map_entries) =
       [(''}'', 0), (''J'', 1), (''K'', 2), (''L'', 3), (''M'', 4),
        (''N'', 5), (''O'', 6), (''P'', 7), (''Q'', 8), (''R'', 9)]
   \<and> (s \<noteq> [] \<longrightarrow>
        (zd_decode s = Inl DecodeError \<longleftrightarrow>
           (\<exists>v. astype_int64 (butlast s) = Inr v) \<and> [last s] \<notin> dom zd_map))
   \<and> (ds \<noteq> [] \<and> list_all is_digit ds \<and> length ds \<le> 18 \<longrightarrow>
        ((\<exists>e. zd_decode (ds @ [c]) = Inl e) \<longleftrightarrow> [c] \<notin> dom zd_map) \<and>
        (zd_decode (ds @ [c]) = Inl DecodeError \<longleftrightarrow> [c] \<notin> dom zd_map))"
proof (intro conjI impI)
  have "card (dom zd_map) = length (map fst zd_map_entries)"
    unfolding zd_map_dom set_map[symmetric] by (rule distinct_card[OF zd_map_keys_distinct])
  then show "card (dom zd_map) = 20"
    by (simp add: zd_map_entries_def)
next
  show "map (\<lambda>(k, sg, d). (k, d)) (filter (\<lambda>(k, sg, d). sg = 1) zd_map_entries) =
       [(''{'', 0), (''A'', 1), (''B'', 2), (''C'', 3), (''D'', 4),
        (''E'', 5), (''F'', 6), (''G'', 7), (''H'', 8), (''I'', 9)]"
    by (simp add: zd_map_entries_def)
next
  show "map (\<lambda>(k, sg, d). (k, d)) (filter (\<lambda>(k, sg, d). sg = - 1) zd_map_entries) =
       [(''}'', 0), (''J'', 1), (''K'', 2), (''L'', 3), (''M'', 4),
        (''N'', 5), (''O'', 6), (''P'', 7), (''Q'', 8), (''R'', 9)]"
    by (simp add: zd_map_entries_def)
next
  assume "s \<noteq> []"
  from zd_decode_DecodeError_iff[OF this]
  show "zd_decode s = Inl DecodeError \<longleftrightarrow>
           (\<exists>v. astype_int64 (butlast s) = Inr v) \<and> [last s] \<notin> dom zd_map"
    by (auto simp: domIff)
next
  assume h: "ds \<noteq> [] \<and> list_all is_digit ds \<and> length ds \<le> 18"
  then have "zd_decode (ds @ [c]) =
     (case zd_map [c] of None \<Rightarrow> Inl DecodeError
      | Some sv \<Rightarrow> Inr (zd_combine (word_of_int (dec_value ds)) sv))"
    by (intro zd_decode_total_on_digits) (simp_all add: list_all_iff)
  then show "(\<exists>e. zd_decode (ds @ [c]) = Inl e) \<longleftrightarrow> [c] \<notin> dom zd_map"
    and "zd_decode (ds @ [c]) = Inl DecodeError \<longleftrightarrow> [c] \<notin> dom zd_map"
    by (auto simp: domIff split: option.splits)
qed

theorem zd_alphabet_witness:
  "zd_decode ''12Z'' = Inl DecodeError \<and> ''Z'' \<notin> dom zd_map \<and>
   (\<exists>v. astype_int64 ''12'' = Inr v) \<and> list_all is_digit ''12'' \<and>
   (\<exists>e. zd_decode ''12Z'' = Inl e)"
proof -
  have z: "''Z'' \<notin> dom zd_map"
    by (simp add: domIff zd_map_def zd_map_entries_def)
  have a: "\<exists>v. astype_int64 ''12'' = Inr v"
    by (simp add: astype_int64_def py_int_def py_strip_def py_isspace_def py_unsigned_def
        is_digit_def digit_val_def)
  have d: "''12'' \<noteq> [] \<and> list_all is_digit ''12'' \<and> length ''12'' \<le> 18"
    by (simp add: is_digit_def)
  have "''12Z'' \<noteq> []" by simp
  from zd_alphabet[of "''12Z''" "''12''" "CHR ''Z''", THEN conjunct2, THEN conjunct2,
      THEN conjunct2, THEN conjunct1, THEN mp, OF this]
  have 1: "zd_decode ''12Z'' = Inl DecodeError" using z a by simp
  from zd_alphabet[of "''12Z''" "''12''" "CHR ''Z''", THEN conjunct2, THEN conjunct2,
      THEN conjunct2, THEN conjunct2, THEN mp, OF d]
  have 2: "\<exists>e. zd_decode ''12Z'' = Inl e" using z by simp
  from 1 2 z a d show ?thesis by simp
qed

text \<open>The alphabet does not have 18 symbols, and the negative sign has a symbol for
  each of the ten digits, not for eight or nine of them.\<close>

theorem zd_alphabet_counterexample:
  "card (dom zd_map) \<noteq> 18 \<and>
   length (filter (\<lambda>(k, sg, d). sg = - 1) zd_map_entries) = 10 \<and>
   length (filter (\<lambda>(k, sg, d). sg = 1) zd_map_entries) = 10"
proof -
  have "card (dom zd_map) = length (map fst zd_map_entries)"
    unfolding zd_map_dom set_map[symmetric] by (rule distinct_card[OF zd_map_keys_distinct])
  then show ?thesis
    by (simp add: zd_map_entries_def)
qed

text \<open>
  Claim C9.  A non-empty series is decoded by cutting every element at the length of
  its first element minus one.  When all elements have the length of the first, the
  series decodes to \<open>rs\<close> exactly when each element, decoded alone, gives its entry of
  \<open>rs\<close>.  An element of another length is not cut before its own last character: then
  the sign part is not one symbol, and the call raises.
\<close>

theorem zd_convertor_batch:
  "zs \<noteq> [] \<longrightarrow>
     (\<forall>rs. zd_convertor zs = Inr rs \<longleftrightarrow>
        list_all2 (decoded_at (int (length (hd zs)) - 1)) zs rs)
   \<and> ((\<forall>s\<in>set zs. length s = length (hd zs)) \<longrightarrow>
        (\<forall>rs. zd_convertor zs = Inr rs \<longleftrightarrow> list_all2 (\<lambda>s r. zd_decode s = Inr r) zs rs))
   \<and> ((\<exists>s\<in>set zs. length s \<noteq> length (hd zs)) \<longrightarrow> (\<exists>e. zd_convertor zs = Inl e))"
proof (intro impI conjI allI)
  fix rs
  assume "zs \<noteq> []"
  then show "zd_convertor zs = Inr rs \<longleftrightarrow>
        list_all2 (decoded_at (int (length (hd zs)) - 1)) zs rs"
    by (simp add: zd_convertor_Inr_iff)
next
  fix rs
  assume ne: "zs \<noteq> []" and same: "\<forall>s\<in>set zs. length s = length (hd zs)"
  have "list_all2 (decoded_at (int (length (hd zs)) - 1)) zs rs \<longleftrightarrow>
        list_all2 (\<lambda>s r. zd_decode s = Inr r) zs rs"
    using same by (intro list_all2_cong_left) (simp add: zd_decode_Inr_iff)
  with ne show "zd_convertor zs = Inr rs \<longleftrightarrow> list_all2 (\<lambda>s r. zd_decode s = Inr r) zs rs"
    by (simp add: zd_convertor_Inr_iff)
next
  assume "\<exists>s\<in>set zs. length s \<noteq> length (hd zs)"
  then show "\<exists>e. zd_convertor zs = Inl e"
    by (auto intro: zd_convertor_length_mismatch)
qed

theorem zd_convertor_batch_witness:
  "map_sum id (map sint) (zd_convertor [''788D'', ''788}'']) = Inr [7884, - 7880] \<and>
   list_all2 (\<lambda>s r. zd_decode s = Inr r) [''788D'', ''788}''] [7884, - 7880] \<and>
   list_all2 (decoded_at 3) [''788D'', ''788}''] [7884, - 7880] \<and>
   map_sum id sint (zd_decode ''12D'') = Inr 124 \<and>
   (\<exists>e. zd_convertor [''1234D'', ''12D''] = Inl e)"
proof -
  have c: "zd_convertor [''788D'', ''788}''] = Inr [7884, - 7880]"
    by code_simp
  have ne: "[''788D'', ''788}''] \<noteq> []" by simp
  have same: "\<forall>s\<in>set [''788D'', ''788}'']. length s = length (hd [''788D'', ''788}''])"
    by simp
  note b = zd_convertor_batch[of "[''788D'', ''788}'']", THEN mp, OF ne]
  from b[THEN conjunct1, THEN spec, of "[7884, - 7880]"] c
  have 1: "list_all2 (decoded_at 3) [''788D'', ''788}''] [7884, - 7880]" by simp
  from b[THEN conjunct2, THEN conjunct1, THEN mp, OF same, THEN spec, of "[7884, - 7880]"] c
  have 2: "list_all2 (\<lambda>s r. zd_decode s = Inr r) [''788D'', ''788}''] [7884, - 7880]"
    by simp
  have ne': "[''1234D'', ''12D''] \<noteq> []" by simp
  have diff: "\<exists>s\<in>set [''1234D'', ''12D'']. length s \<noteq> length (hd [''1234D'', ''12D''])"
    by simp
  from zd_convertor_batch[of "[''1234D'', ''12D'']", THEN mp, OF ne', THEN conjunct2,
      THEN conjunct2, THEN mp, OF diff]
  have 3: "\<exists>e. zd_convertor [''1234D'', ''12D''] = Inl e" .
  have 4: "map_sum id sint (zd_decode ''12D'') = Inr 124"
    by code_simp
  from c 1 2 3 4 show ?thesis by simp
qed

section \<open>Lemmas on extraction and on the code dictionary\<close>

lemma py_slice_field:
  "py_slice (Some (int a)) (Some (int b)) = field (a, b - a)"
  using py_slice_Some_Some_nonneg[of "int a" "int b"] by (intro ext) (simp add: field_def)

lemma py_slice_take2: "py_slice (Some 0) (Some 2) = take 2"
  using py_slice_Some_Some_nonneg[of 0 2] by (intro ext) simp

lemma concat_columns_map:
  "concat_columns (map f recs) (map g recs) (map h (map g recs)) assets =
     map2 (\<lambda>r a. (f r, g r, h (g r), a)) recs assets"
proof (induction recs arbitrary: assets)
  case Nil
  show ?case by (simp add: concat_columns_def)
next
  case (Cons r recs)
  then show ?case
    by (cases assets) (simp_all add: concat_columns_def)
qed

lemma map2_short:
  "x \<in> set (map2 (\<lambda>r a. (f r, g r, h (g r), a)) recs assets) \<Longrightarrow>
     fst (snd (snd x)) = h (fst (snd x))"
  by (auto dest!: set_zip_leftD)

lemma year_85:
  assumes "py_slice None (Some 2) fld = ''85''"
  shows "Processor_extract fld recs = schema_extract (schema_table YearA) recs"
proof -
  have s: "scale_field (schema_table YearA) = (7, 1)"
    "primary_field (schema_table YearA) = (13, 4)"
    "asset_field (schema_table YearA) = (1138, 15)"
    "asset_encoding (schema_table YearA) = ZonedDecimal"
    by (simp_all add: schema_table_def)
  have f: "py_slice (Some 7) (Some 8) = field (7, 1)"
    "py_slice (Some 13) (Some 17) = field (13, 4)"
    "py_slice (Some 1138) (Some 1153) = field (1138, 15)"
    using py_slice_field[of 7 8] py_slice_field[of 13 17] py_slice_field[of 1138 1153]
    by simp_all
  show ?thesis
    unfolding Processor_extract_def schema_extract_def s Let_def f py_slice_take2
      concat_columns_map
    using assms by simp
qed

lemma year_90:
  assumes "py_slice None (Some 2) fld = ''90''"
  shows "Processor_extract fld recs = schema_extract (schema_table YearB) recs"
proof -
  have s: "scale_field (schema_table YearB) = (11, 1)"
    "primary_field (schema_table YearB) = (13, 4)"
    "asset_field (schema_table YearB) = (1068, 15)"
    "asset_encoding (schema_table YearB) = PlainInteger"
    by (simp_all add: schema_table_def)
  have f: "py_slice (Some 11) (Some 12) = field (11, 1)"
    "py_slice (Some 13) (Some 17) = field (13, 4)"
    "py_slice (Some 1068) (Some 1083) = field (1068, 15)"
    using py_slice_field[of 11 12] py_slice_field[of 13 17] py_slice_field[of 1068 1083]
    by simp_all
  show ?thesis
    unfolding Processor_extract_def schema_extract_def s Let_def f py_slice_take2
      concat_columns_map
    using assms by simp
qed

lemma year_95:
  assumes "py_slice None (Some 2) fld = ''95''"
  shows "Processor_extract fld recs = schema_extract (schema_table YearC) recs"
proof -
  have s: "scale_field (schema_table YearC) = (1, 1)"
    "primary_field (schema_table YearC) = (2, 4)"
    "asset_field (schema_table YearC) = (245, 15)"
    "asset_encoding (schema_table YearC) = ZonedDecimal"
    by (simp_all add: schema_table_def)
  have f: "py_slice (Some 1) (Some 2) = field (1, 1)"
    "py_slice (Some 2) (Some 6) = field (2, 4)"
    "py_slice (Some 245) (Some 260) = field (245, 15)"
    using py_slice_field[of 1 2] py_slice_field[of 2 6] py_slice_field[of 245 260]
    by simp_all
  show ?thesis
    unfolding Processor_extract_def schema_extract_def s Let_def f py_slice_take2
      concat_columns_map
    using assms by simp
qed

lemma schema_extract_short:
  assumes "schema_extract sc recs = Inr rows" "x \<in> set rows"
  shows "fst (snd (snd x)) = take 2 (fst (snd x))"
proof -
  from assms(1) obtain assets where
    "rows = map2 (\<lambda>r a. (field (scale_field sc) r, field (primary_field sc) r,
                            take 2 (field (primary_field sc) r), a)) recs assets"
    by (auto simp: schema_extract_def split: sum.splits)
  with assms(2) show ?thesis
    using map2_short[of x "field (scale_field sc)" "field (primary_field sc)" "take 2" recs assets]
    by simp
qed

lemma extract_year_cases:
  assumes "Processor_extract fld recs = Inr rows"
  obtains y where "py_slice None (Some 2) fld = year_prefix y"
  using assms that[of YearA] that[of YearB] that[of YearC]
  by (auto simp: Processor_extract_def year_prefix_def Let_def split: if_splits)

lemma extract_schema_eq:
  "py_slice None (Some 2) fld = year_prefix y \<Longrightarrow>
     Processor_extract fld recs = schema_extract (schema_table y) recs"
  by (cases y) (simp_all add: year_prefix_def year_85 year_90 year_95)

lemma pad_code_spec: "pad_code k = Inr (spec_pad k)"
proof (cases "isnumeric k")
  case True
  then have "k \<noteq> []" "\<forall>c\<in>set k. is_digit c"
    by (simp_all add: isnumeric_def list_all_iff)
  from py_int_digits[OF this] True show ?thesis
    by (simp add: pad_code_def spec_pad_def isnumeric_def)
next
  case False
  then show ?thesis
    by (auto simp: pad_code_def spec_pad_def isnumeric_def)
qed

lemma insert_codes_Inr:
  "insert_codes d isic ks = Inr (foldl (\<lambda>d k. d(spec_pad k \<mapsto> isic)) d ks)"
  by (induction ks arbitrary: d) (simp_all add: pad_code_spec)

lemma foldl_upd_apply:
  "foldl (\<lambda>d k. d(f k \<mapsto> v)) d ks x = (if x \<in> f ` set ks then Some v else d x)"
  by (induction ks arbitrary: d) auto

lemma insert_rows_Inr:
  assumes "insert_rows d rows = Inr d'"
  shows "dom d' = dom d \<union> (\<Union>(codes, isic)\<in>set rows. \<Union>ks\<in>set_option codes. spec_pad ` set ks)"
    and "d' x = Some v \<Longrightarrow>
           d x = Some v \<or> (\<exists>(codes, isic)\<in>set rows. \<exists>ks\<in>set_option codes. x \<in> spec_pad ` set ks \<and> v = isic)"
  using assms
proof (induction rows arbitrary: d)
  case Nil
  { case 1 then show ?case by simp }
  { case 2 then show ?case by simp }
next
  case (Cons a rows)
  obtain codes isic where a: "a = (codes, isic)" by (cases a)
  { case 1
    from 1 a obtain ks where ks: "codes = Some ks"
      and rest: "insert_rows (foldl (\<lambda>d k. d(spec_pad k \<mapsto> isic)) d ks) rows = Inr d'"
      by (auto simp: insert_codes_Inr split: option.splits)
    have "dom (foldl (\<lambda>d k. d(spec_pad k \<mapsto> isic)) d ks) = dom d \<union> spec_pad ` set ks"
      by (auto simp: foldl_upd_apply domIff split: if_splits)
    with Cons.IH(1)[OF rest] show ?case
      by (auto simp: a ks) }
  { case 2
    from 2(2) a obtain ks where ks: "codes = Some ks"
      and rest: "insert_rows (foldl (\<lambda>d k. d(spec_pad k \<mapsto> isic)) d ks) rows = Inr d'"
      by (auto simp: insert_codes_Inr split: option.splits)
    from Cons.IH(2)[OF 2(1) rest] show ?case
      by (auto simp: a ks foldl_upd_apply split: if_splits) }
qed

lemma rocsic_to_isic_Inr:
  assumes "code_using fld = Some col" "rocsic_to_isic fld sic_tb = Inr d"
  shows "dom d = (\<Union>r\<in>set sic_tb. row_keys col r)"
    and "d x = Some v \<Longrightarrow> \<exists>r\<in>set sic_tb. x \<in> row_keys col r \<and> v = ISIC_Rev3 r"
proof -
  from assms have ins:
    "insert_rows Map.empty (map (\<lambda>r. (map_option split_comma (col r), ISIC_Rev3 r)) sic_tb) = Inr d"
    by (simp add: rocsic_to_isic_def)
  have keys: "(\<Union>ks\<in>set_option (map_option split_comma (col r)). spec_pad ` set ks) = row_keys col r"
    for r
    by (cases "col r") (simp_all add: row_keys_def)
  from insert_rows_Inr(1)[OF ins] show "dom d = (\<Union>r\<in>set sic_tb. row_keys col r)"
    by (simp add: keys)
  assume "d x = Some v"
  from insert_rows_Inr(2)[OF ins this]
  obtain r where r: "r \<in> set sic_tb"
    and "\<exists>ks\<in>set_option (map_option split_comma (col r)). x \<in> spec_pad ` set ks \<and> v = ISIC_Rev3 r"
    by auto
  then have "x \<in> row_keys col r \<and> v = ISIC_Rev3 r"
    by (cases "col r") (auto simp: row_keys_def)
  with r show "\<exists>r\<in>set sic_tb. x \<in> row_keys col r \<and> v = ISIC_Rev3 r"
    by blast
qed


lemma spec_pad_Else: "spec_pad k = ''Else'' \<longleftrightarrow> k = ''Else''"
  by (auto simp: spec_pad_def is_digit_def split: if_splits)

lemma Else_spec_pad: "''Else'' = spec_pad k \<longleftrightarrow> k = ''Else''"
  using spec_pad_Else[of k] by auto

lemma Else_in_row_keys:
  "''Else'' \<in> row_keys col r \<longleftrightarrow> (\<exists>s. col r = Some s \<and> ''Else'' \<in> set (split_comma s))"
  by (cases "col r") (auto simp: row_keys_def Else_spec_pad image_iff)

section \<open>The claims on extraction and on the code dictionary\<close>

text \<open>
  Claim C2.  For each of the three supported years the extraction of the source is the
  extraction by the schema table: for the year 85 scale at (7, 1), primary at (13, 4)
  and the asset at (1138, 15) in zoned decimal; for the year 90 scale at (11, 1),
  primary at (13, 4) and the asset at (1068, 15) as a plain integer; for the year 95
  scale at (1, 1), primary at (2, 4) and the asset at (245, 15) in zoned decimal.  In
  every row extracted, the short primary code is the first two characters of the
  primary code.
\<close>

theorem extract_by_schema:
  "(py_slice None (Some 2) fld = year_prefix y \<longrightarrow>
      Processor_extract fld recs = schema_extract (schema_table y) recs)
   \<and> (Processor_extract fld recs = Inr rows \<longrightarrow>
        list_all (\<lambda>(sc, pr, sh, a). sh = take 2 pr) rows)"
proof (intro conjI impI)
  assume "py_slice None (Some 2) fld = year_prefix y"
  then show "Processor_extract fld recs = schema_extract (schema_table y) recs"
    by (rule extract_schema_eq)
next
  assume ex: "Processor_extract fld recs = Inr rows"
  then obtain y' where "py_slice None (Some 2) fld = year_prefix y'"
    by (rule extract_year_cases)
  with ex have "schema_extract (schema_table y') recs = Inr rows"
    by (simp add: extract_schema_eq)
  from schema_extract_short[OF this] show "list_all (\<lambda>(sc, pr, sh, a). sh = take 2 pr) rows"
    by (auto simp: list_all_iff)
qed

theorem extract_by_schema_witness:
  "py_slice None (Some 2) ''95x'' = year_prefix YearC \<and>
   schema_extract (schema_table YearC) [example_record] = Inr [(''3'', ''0512'', ''05'', 7884)] \<and>
   Processor_extract ''95x'' [example_record] = Inr [(''3'', ''0512'', ''05'', 7884)] \<and>
   list_all (\<lambda>(sc, pr, sh, a). sh = take 2 pr) [(''3'', ''0512'', ''05'', 7884 :: int64)]"
proof -
  have y: "py_slice None (Some 2) ''95x'' = year_prefix YearC"
    by (simp add: py_slice_def py_index_def year_prefix_def)
  have e: "Processor_extract ''95x'' [example_record] = Inr [(''3'', ''0512'', ''05'', 7884)]"
    by code_simp
  note t = extract_by_schema[of "''95x''" YearC "[example_record]" "[(''3'', ''0512'', ''05'', 7884)]"]
  from t[THEN conjunct1, THEN mp, OF y] e
  have 1: "schema_extract (schema_table YearC) [example_record] = Inr [(''3'', ''0512'', ''05'', 7884)]"
    by simp
  from t[THEN conjunct2, THEN mp, OF e]
  have 2: "list_all (\<lambda>(sc, pr, sh, a). sh = take 2 pr) [(''3'', ''0512'', ''05'', 7884 :: int64)]" .
  from y e 1 2 show ?thesis by simp
qed



section \<open>Lemmas on the processor\<close>

lemma collect_data_unsupported:
  "py_slice None (Some 2) (folder p) \<notin> {''85'', ''90'', ''95''} \<Longrightarrow>
     \<exists>msg. collect_data p dir = ([Line msg], Inr p)"
  by (simp add: collect_data_def)

lemma collect_data_Inr:
  assumes "collect_data p dir = (out, Inr p')"
  shows "p' = p \<or> (extracted p' \<and> (\<exists>entries lines rows data_out.
            dir = Some entries \<and>
            collect_files (folder p) (target_files entries) = (lines, Inr rows) \<and>
            set_columns (data p) (target_files entries) rows = Inr data_out \<and>
            p' = p\<lparr>extracted := True, data := Some data_out\<rparr>))"
  using assms
  by (auto simp: collect_data_def Let_def split: if_splits option.splits prod.splits sum.splits)

lemma apply_conditions_Inr:
  assumes "apply_conditions p k conds = (out, Inr p')"
  shows "extracted p' = extracted p \<and> (\<not> extracted p \<longrightarrow> p' = p)"
  using assms by (auto simp: apply_conditions_def split: if_splits option.splits)

lemma sic_mapping_Inr:
  assumes "sic_mapping p sic_tb = (out, Inr p')"
  shows "extracted p' = extracted p \<and> (\<not> extracted p \<longrightarrow> p' = p)"
  using assms
  by (auto simp: sic_mapping_def split: if_splits option.splits sum.splits)

lemma reachable_no_data:
  "reachable p \<Longrightarrow> \<not> extracted p \<Longrightarrow> data p = None"
proof (induction rule: reachable.induct)
  case (init uf f)
  show ?case by (simp add: Processor_init_def)
next
  case (collect p dir out p')
  from collect_data_Inr[OF collect.hyps(2)] collect.prems collect.IH show ?case
    by auto
next
  case (conditions p k conds out p')
  from apply_conditions_Inr[OF conditions.hyps(2)] conditions.prems conditions.IH show ?case
    by auto
next
  case (mapping p sic_tb out p')
  from sic_mapping_Inr[OF mapping.hyps(2)] mapping.prems mapping.IH show ?case
    by auto
qed

lemma collect_files_short:
  "collect_files fld files = (out, Inr rows) \<Longrightarrow> x \<in> set rows \<Longrightarrow>
     fst (snd (snd x)) = take 2 (fst (snd x))"
proof (induction files arbitrary: out rows)
  case Nil
  then show ?case by simp
next
  case (Cons a files)
  obtain cur_file bytes where a: "a = (cur_file, bytes)" by (cases a)
  from Cons.prems(1) a have "\<exists>rows1 out2 rows2.
      Processor_extract fld (companies_raw bytes) = Inr rows1 \<and>
      collect_files fld files = (out2, Inr rows2) \<and> rows = rows1 @ rows2"
    by (auto split: sum.splits prod.splits)
  then obtain rows1 out2 rows2 where
    e: "Processor_extract fld (companies_raw bytes) = Inr rows1"
    and c: "collect_files fld files = (out2, Inr rows2)" and r: "rows = rows1 @ rows2"
    by blast
  from Cons.prems(2) r consider "x \<in> set rows1" | "x \<in> set rows2" by auto
  then show ?case
  proof cases
    case 1
    from e obtain y where "py_slice None (Some 2) fld = year_prefix y"
      by (rule extract_year_cases)
    with e have "schema_extract (schema_table y) (companies_raw bytes) = Inr rows1"
      by (simp add: extract_schema_eq)
    from schema_extract_short[OF this 1] show ?thesis .
  next
    case 2
    from Cons.IH[OF c 2] show ?thesis .
  qed
qed

lemma name_columns_short:
  "fst (snd (snd x)) = take 2 (fst (snd x)) \<Longrightarrow>
     roc_sic (name_columns x) = take 2 (primary (name_columns x))"
  by (cases x) (auto simp: name_columns_def)

lemma collect_data_fresh:
  assumes "collect_data p dir = (out, Inr p')" "data p = None" "extracted p'" "\<not> extracted p"
  shows "\<exists>rows. data p' = Some (Extracted rows) \<and> folder p' = folder p \<and>
           (\<forall>r\<in>set rows. roc_sic r = take 2 (primary r))"
proof -
  from collect_data_Inr[OF assms(1)] assms(3,4) obtain entries lines rows data_out where
    cf: "collect_files (folder p) (target_files entries) = (lines, Inr rows)"
    and sc: "set_columns (data p) (target_files entries) rows = Inr data_out"
    and p': "p' = p\<lparr>extracted := True, data := Some data_out\<rparr>"
    by auto
  from sc assms(2) have d: "data_out = Extracted (map name_columns rows)"
    by (auto simp: set_columns_def split: if_splits)
  from collect_files_short[OF cf] have "\<forall>x\<in>set rows. fst (snd (snd x)) = take 2 (fst (snd x))"
    by blast
  then have "\<forall>r\<in>set (map name_columns rows). roc_sic r = take 2 (primary r)"
    by (auto intro: name_columns_short)
  with p' d show ?thesis by simp
qed

section \<open>The claims on the processor\<close>

text \<open>
  Claim C1, as the code has it.  The lookup of \<open>sic_mapping\<close> is by the column \<open>roc_sic\<close>,
  which after collection holds the 2-character short form, the first two characters of
  the 4-character primary code; the full code is not looked up.  Every row gets the
  classification stored for its short code, and the default (Else) classification
  exactly when the short code is no key of the table or the cell stored for it is
  empty.
\<close>

theorem sic_mapping_lookup:
  "collect_data (Processor_init uf fld) dir = (out1, Inr p1) \<and> extracted p1 \<and>
   sic_mapping p1 sic_tb = (out2, Inr p2) \<longrightarrow>
     (\<exists>rows d dflt.
        data p1 = Some (Extracted rows) \<and>
        list_all (\<lambda>r. roc_sic r = take 2 (primary r)) rows \<and>
        rocsic_to_isic fld sic_tb = Inr d \<and> d ''Else'' = Some dflt \<and>
        data p2 = Some (Annotated
          (map (\<lambda>r. (r, case d (take 2 (primary r)) of Some (Some v) \<Rightarrow> Some v | _ \<Rightarrow> dflt))
             rows)))"
proof
  assume h: "collect_data (Processor_init uf fld) dir = (out1, Inr p1) \<and> extracted p1 \<and>
   sic_mapping p1 sic_tb = (out2, Inr p2)"
  then have c: "collect_data (Processor_init uf fld) dir = (out1, Inr p1)" and ex: "extracted p1"
    by simp_all
  from collect_data_fresh[OF c _ ex]
  have "\<exists>rows. data p1 = Some (Extracted rows) \<and> folder p1 = fld \<and>
           (\<forall>r\<in>set rows. roc_sic r = take 2 (primary r))"
    by (simp add: Processor_init_def)
  then obtain rows where rows: "data p1 = Some (Extracted rows)" and f: "folder p1 = fld"
    and short: "\<forall>r\<in>set rows. roc_sic r = take 2 (primary r)"
    by blast
  from h rows f obtain d dflt where d: "rocsic_to_isic fld sic_tb = Inr d"
    and e: "d ''Else'' = Some dflt"
    and p2: "data p2 = Some (Annotated (map (\<lambda>r. (r, lookup_isic d dflt (roc_sic r))) rows))"
    by (auto simp: sic_mapping_def frame_rows_def split: sum.splits option.splits)
  from short have "map (\<lambda>r. (r, lookup_isic d dflt (roc_sic r))) rows =
      map (\<lambda>r. (r, case d (take 2 (primary r)) of Some (Some v) \<Rightarrow> Some v | _ \<Rightarrow> dflt)) rows"
    by (simp add: lookup_isic_def)
  with rows short d e p2 show "\<exists>rows d dflt.
        data p1 = Some (Extracted rows) \<and>
        list_all (\<lambda>r. roc_sic r = take 2 (primary r)) rows \<and>
        rocsic_to_isic fld sic_tb = Inr d \<and> d ''Else'' = Some dflt \<and>
        data p2 = Some (Annotated
          (map (\<lambda>r. (r, case d (take 2 (primary r)) of Some (Some v) \<Rightarrow> Some v | _ \<Rightarrow> dflt))
             rows))"
    by (auto simp: list_all_iff)
qed

theorem sic_mapping_lookup_witness:
  "snd (collect_data (Processor_init ''census'' ''95x'') (Some example_dir)) = Inr example_collected \<and>
   extracted example_collected \<and>
   snd (sic_mapping example_collected example_sheet) = Inr example_annotated \<and>
   (\<exists>rows d dflt.
        data example_collected = Some (Extracted rows) \<and>
        list_all (\<lambda>r. roc_sic r = take 2 (primary r)) rows \<and>
        rocsic_to_isic ''95x'' example_sheet = Inr d \<and> d ''Else'' = Some dflt \<and>
        data example_annotated = Some (Annotated
          (map (\<lambda>r. (r, case d (take 2 (primary r)) of Some (Some v) \<Rightarrow> Some v | _ \<Rightarrow> dflt))
             rows)))"
proof -
  have c: "snd (collect_data (Processor_init ''census'' ''95x'') (Some example_dir)) =
      Inr example_collected"
    by code_simp
  have e: "extracted example_collected"
    by (simp add: example_collected_def)
  have m: "snd (sic_mapping example_collected example_sheet) = Inr example_annotated"
    by code_simp
  from c have c': "collect_data (Processor_init ''census'' ''95x'') (Some example_dir) =
      (fst (collect_data (Processor_init ''census'' ''95x'') (Some example_dir)), Inr example_collected)"
    by (simp add: prod_eq_iff)
  from m have m': "sic_mapping example_collected example_sheet =
      (fst (sic_mapping example_collected example_sheet), Inr example_annotated)"
    by (simp add: prod_eq_iff)
  from sic_mapping_lookup[THEN mp, OF conjI[OF c' conjI[OF e m']]] c e m
  show ?thesis by simp
qed

text \<open>
  The claim as written fails on the record of the example: its full primary code 0512
  is absent from the table built from the sheet, so the claim gives it the default
  classification Z; the code gives it D, the classification stored for 05.
\<close>

theorem sic_mapping_lookup_counterexample:
  "snd (collect_data (Processor_init ''census'' ''95x'') (Some example_dir)) = Inr example_collected \<and>
   snd (sic_mapping example_collected example_sheet) = Inr example_annotated \<and>
   data example_annotated =
     Some (Annotated [(example_row, Some ''D''), (example_row8, Some ''Z'')]) \<and>
   primary example_row = ''0512'' \<and>
   (case rocsic_to_isic ''95x'' example_sheet of
      Inl e \<Rightarrow> False
    | Inr d \<Rightarrow> d ''0512'' = None \<and> d ''Else'' = Some (Some ''Z'') \<and> d ''05'' = Some (Some ''D''))"
proof (intro conjI)
  show "snd (collect_data (Processor_init ''census'' ''95x'') (Some example_dir)) =
      Inr example_collected"
    by code_simp
  show "snd (sic_mapping example_collected example_sheet) = Inr example_annotated"
    by code_simp
  show "data example_annotated =
     Some (Annotated [(example_row, Some ''D''), (example_row8, Some ''Z'')])"
    by (simp add: example_annotated_def)
  show "primary example_row = ''0512''"
    by (simp add: example_row_def)
  show "(case rocsic_to_isic ''95x'' example_sheet of
      Inl e \<Rightarrow> False
    | Inr d \<Rightarrow> d ''0512'' = None \<and> d ''Else'' = Some (Some ''Z'') \<and> d ''05'' = Some (Some ''D''))"
    by code_simp
qed

text \<open>
  Claim C6, as the code has it.  The default is read from the dictionary before any
  row is looked at (\<^verbatim>\<open>rocsic_to_isic['Else']\<close> is an argument of \<^verbatim>\<open>fillna\<close>).  On
  collected data, with the dictionary built, the mapping fails exactly when no row of
  the sheet lists the code Else, and then with \<^verbatim>\<open>KeyError\<close>, whether or not a row misses
  the table.
\<close>

theorem sic_mapping_missing_default:
  "extracted p \<and> data p = Some f \<and> code_using (folder p) = Some col \<and>
   rocsic_to_isic (folder p) sic_tb = Inr d \<longrightarrow>
     (snd (sic_mapping p sic_tb) = Inl KeyError \<longleftrightarrow> ''Else'' \<notin> dom d) \<and>
     ((\<exists>e. snd (sic_mapping p sic_tb) = Inl e) \<longleftrightarrow> ''Else'' \<notin> dom d) \<and>
     (''Else'' \<in> dom d \<longleftrightarrow>
        (\<exists>r. r \<in> set sic_tb \<and> (\<exists>s. col r = Some s \<and> ''Else'' \<in> set (split_comma s))))"
proof (intro impI conjI)
  assume h: "extracted p \<and> data p = Some f \<and> code_using (folder p) = Some col \<and>
   rocsic_to_isic (folder p) sic_tb = Inr d"
  then show "snd (sic_mapping p sic_tb) = Inl KeyError \<longleftrightarrow> ''Else'' \<notin> dom d"
    by (auto simp: sic_mapping_def domIff split: option.splits)
  from h show "(\<exists>e. snd (sic_mapping p sic_tb) = Inl e) \<longleftrightarrow> ''Else'' \<notin> dom d"
    by (auto simp: sic_mapping_def domIff split: option.splits)
  from h have "dom d = (\<Union>r\<in>set sic_tb. row_keys col r)"
    by (intro rocsic_to_isic_Inr(1)[of "folder p"]) simp_all
  then show "''Else'' \<in> dom d \<longleftrightarrow>
        (\<exists>r. r \<in> set sic_tb \<and> (\<exists>s. col r = Some s \<and> ''Else'' \<in> set (split_comma s)))"
    by (auto simp: Else_in_row_keys)
qed

theorem sic_mapping_missing_default_witness:
  "snd (sic_mapping example_filtered example_sheet_no_else) = Inl KeyError \<and>
   snd (sic_mapping example_collected example_sheet) = Inr example_annotated \<and>
   (\<exists>d. rocsic_to_isic ''95x'' example_sheet_no_else = Inr d \<and> ''Else'' \<notin> dom d) \<and>
   (\<exists>d. rocsic_to_isic ''95x'' example_sheet = Inr d \<and> ''Else'' \<in> dom d)"
proof -
  have cu: "code_using ''95x'' = Some (ROCSIC_8 :: string sic_row \<Rightarrow> string option)"
    by (simp add: code_using_def py_slice_def py_index_def)
  obtain d1 where d1: "rocsic_to_isic ''95x'' example_sheet_no_else = Inr d1"
    by (cases "rocsic_to_isic ''95x'' example_sheet_no_else")
       (simp_all add: rocsic_to_isic_def cu example_sheet_no_else_def insert_codes_Inr)
  obtain d2 where d2: "rocsic_to_isic ''95x'' example_sheet = Inr d2"
    by (cases "rocsic_to_isic ''95x'' example_sheet")
       (simp_all add: rocsic_to_isic_def cu example_sheet_def example_sheet_no_else_def
          insert_codes_Inr)
  have k: "snd (sic_mapping example_filtered example_sheet_no_else) = Inl KeyError"
    by code_simp
  have m: "snd (sic_mapping example_collected example_sheet) = Inr example_annotated"
    by code_simp
  have h1: "extracted example_filtered \<and> data example_filtered = Some (Extracted [example_row]) \<and>
      code_using (folder example_filtered) = Some (ROCSIC_8 :: string sic_row \<Rightarrow> string option) \<and>
      rocsic_to_isic (folder example_filtered) example_sheet_no_else = Inr d1"
    using cu d1 by (simp add: example_filtered_def example_collected_def)
  have h2: "extracted example_collected \<and>
      data example_collected = Some (Extracted [example_row, example_row8]) \<and>
      code_using (folder example_collected) = Some (ROCSIC_8 :: string sic_row \<Rightarrow> string option) \<and>
      rocsic_to_isic (folder example_collected) example_sheet = Inr d2"
    using cu d2 by (simp add: example_collected_def)
  from sic_mapping_missing_default[THEN mp, OF h1, THEN conjunct1] k
  have 1: "''Else'' \<notin> dom d1" by simp
  from sic_mapping_missing_default[THEN mp, OF h2, THEN conjunct2, THEN conjunct1] m
  have 2: "''Else'' \<in> dom d2" by auto
  from k m d1 d2 1 2 show ?thesis by simp
qed

text \<open>
  The claim as written fails after the filter has removed the row of scale 8: the one
  row left has the short code 05, which is a key of the table built from the sheet
  without the default row, so no lookup misses; the mapping raises all the same.
\<close>

theorem sic_mapping_missing_default_counterexample:
  "snd (apply_conditions example_collected False []) = Inr example_filtered \<and>
   data example_filtered = Some (Extracted [example_row]) \<and>
   (case rocsic_to_isic ''95x'' example_sheet_no_else of
      Inl e \<Rightarrow> False
    | Inr d \<Rightarrow> d ''Else'' = None \<and> d (roc_sic example_row) = Some (Some ''D'')) \<and>
   snd (sic_mapping example_filtered example_sheet_no_else) = Inl KeyError"
proof (intro conjI)
  show "snd (apply_conditions example_collected False []) = Inr example_filtered"
    by code_simp
  show "data example_filtered = Some (Extracted [example_row])"
    by (simp add: example_filtered_def)
  show "(case rocsic_to_isic ''95x'' example_sheet_no_else of
      Inl e \<Rightarrow> False
    | Inr d \<Rightarrow> d ''Else'' = None \<and> d (roc_sic example_row) = Some (Some ''D''))"
    by code_simp
  show "snd (sic_mapping example_filtered example_sheet_no_else) = Inl KeyError"
    by code_simp
qed

text \<open>
  Claim C7.  Before collection has completed, \<open>apply_conditions\<close>, \<open>sic_mapping\<close>,
  \<open>show_data\<close> and \<open>get_data\<close> print the warning and return; the two that return a
  processor return it unchanged, the other two assign nothing; \<open>get_data\<close> returns
  \<^verbatim>\<open>None\<close>, the stored data of every processor that has not completed a collection.
  \<open>collect_data\<close> on a folder whose first two characters are none of 85, 90 and 95 prints
  one message and returns the processor unchanged.  No call raises.
\<close>

theorem guarded_operations:
  "(\<not> extracted p \<longrightarrow>
      apply_conditions p k conds = ([Line warn_data_not_collected], Inr p) \<and>
      sic_mapping p sic_tb = ([Line warn_data_not_collected], Inr p) \<and>
      show_data p = ([Line warn_data_not_collected], Inr ()) \<and>
      fst (get_data p) = [Line warn_data_not_collected] \<and>
      (reachable p \<longrightarrow> snd (get_data p) = None))
   \<and> (py_slice None (Some 2) (folder p) \<notin> {''85'', ''90'', ''95''} \<longrightarrow>
        (\<exists>msg. collect_data p dir = ([Line msg], Inr p)))"
proof (intro conjI impI)
  assume n: "\<not> extracted p"
  then show "apply_conditions p k conds = ([Line warn_data_not_collected], Inr p)"
    by (simp add: apply_conditions_def)
  from n show "sic_mapping p sic_tb = ([Line warn_data_not_collected], Inr p)"
    by (simp add: sic_mapping_def)
  from n show "show_data p = ([Line warn_data_not_collected], Inr ())"
    by (simp add: show_data_def)
  from n show "fst (get_data p) = [Line warn_data_not_collected]"
    by (simp add: get_data_def)
  assume "reachable p"
  from reachable_no_data[OF this n] show "snd (get_data p) = None"
    by (simp add: get_data_def)
next
  assume "py_slice None (Some 2) (folder p) \<notin> {''85'', ''90'', ''95''}"
  then show "\<exists>msg. collect_data p dir = ([Line msg], Inr p)"
    by (rule collect_data_unsupported)
qed

theorem guarded_operations_witness:
  "\<not> extracted (Processor_init ''census'' ''95x'' :: string processor) \<and>
   reachable (Processor_init ''census'' ''95x'' :: string processor) \<and>
   apply_conditions (Processor_init ''census'' ''95x'' :: string processor) False [] =
     ([Line warn_data_not_collected], Inr (Processor_init ''census'' ''95x'')) \<and>
   sic_mapping (Processor_init ''census'' ''95x'') example_sheet =
     ([Line warn_data_not_collected], Inr (Processor_init ''census'' ''95x'')) \<and>
   show_data (Processor_init ''census'' ''95x'' :: string processor) =
     ([Line warn_data_not_collected], Inr ()) \<and>
   get_data (Processor_init ''census'' ''95x'' :: string processor) =
     ([Line warn_data_not_collected], None) \<and>
   collect_data (Processor_init ''census'' ''80x'' :: string processor) (Some example_dir) =
     ([Line ''Destined year not yet finished.''], Inr (Processor_init ''census'' ''80x'')) \<and>
   collect_data (Processor_init ''census'' '''' :: string processor) (Some example_dir) =
     ([Line ''Please specify a folder''], Inr (Processor_init ''census'' ''''))"
proof -
  let ?p = "Processor_init ''census'' ''95x'' :: string processor"
  let ?q = "Processor_init ''census'' ''80x'' :: string processor"
  let ?e = "Processor_init ''census'' '''' :: string processor"
  have n: "\<not> extracted ?p"
    by (simp add: Processor_init_def)
  have r: "reachable ?p"
    by (rule reachable.init)
  have y: "py_slice None (Some 2) (folder ?q) \<notin> {''85'', ''90'', ''95''}"
    by (simp add: Processor_init_def py_slice_def py_index_def)
  have y': "py_slice None (Some 2) (folder ?e) \<notin> {''85'', ''90'', ''95''}"
    by (simp add: Processor_init_def py_slice_def py_index_def)
  note g = guarded_operations[of ?p False "[]" example_sheet, THEN conjunct1, THEN mp, OF n]
  from g have 1: "apply_conditions ?p False [] = ([Line warn_data_not_collected], Inr ?p)"
    and 2: "sic_mapping ?p example_sheet = ([Line warn_data_not_collected], Inr ?p)"
    and 3: "show_data ?p = ([Line warn_data_not_collected], Inr ())"
    and 4: "fst (get_data ?p) = [Line warn_data_not_collected]"
    by blast+
  from g r have 5: "snd (get_data ?p) = None" by blast
  from guarded_operations[of ?q _ _ _ "Some example_dir", THEN conjunct2, THEN mp, OF y]
  have 6: "collect_data ?q (Some example_dir) =
     ([Line ''Destined year not yet finished.''], Inr ?q)"
    by (auto simp: collect_data_def Processor_init_def py_slice_def py_index_def)
  from guarded_operations[of ?e _ _ _ "Some example_dir", THEN conjunct2, THEN mp, OF y']
  have 7: "collect_data ?e (Some example_dir) = ([Line ''Please specify a folder''], Inr ?e)"
    by (auto simp: collect_data_def Processor_init_def)
  from 4 5 have 45: "get_data ?p = ([Line warn_data_not_collected], None)"
    by (simp add: prod_eq_iff)
  from n r 1 2 3 45 6 7 show ?thesis by simp
qed



text \<open>
  Claim C10.  \<open>output_CSV\<close> before collection prints the warning and goes on to the
  export: what it then does with the stored data is what it does when the flag is set.
  On a processor that has not completed a collection the stored data is \<^verbatim>\<open>None\<close> and the
  export raises \<^verbatim>\<open>AttributeError\<close>.  \<open>show_data\<close>, \<open>apply_conditions\<close> and \<open>sic_mapping\<close>
  return after the warning: \<open>show_data\<close> prints no frame, the other two return the
  processor as it is.
\<close>

theorem output_CSV_no_return:
  "\<not> extracted p \<longrightarrow>
     fst (output_CSV p) = [Line warn_data_not_collected] \<and>
     snd (output_CSV p) = snd (output_CSV (p\<lparr>extracted := True\<rparr>)) \<and>
     snd (output_CSV p) =
       (case data p of
          None \<Rightarrow> Inl AttributeError
        | Some f \<Rightarrow> Inr (py_slice None (Some 3) (folder p) @ ''_extracted.csv'', f)) \<and>
     (reachable p \<longrightarrow> output_CSV p = ([Line warn_data_not_collected], Inl AttributeError)) \<and>
     show_data p = ([Line warn_data_not_collected], Inr ()) \<and>
     apply_conditions p k conds = ([Line warn_data_not_collected], Inr p) \<and>
     sic_mapping p sic_tb = ([Line warn_data_not_collected], Inr p)"
proof (intro impI conjI)
  assume n: "\<not> extracted p"
  then show "fst (output_CSV p) = [Line warn_data_not_collected]"
    by (simp add: output_CSV_def)
  show "snd (output_CSV p) = snd (output_CSV (p\<lparr>extracted := True\<rparr>))"
    by (simp add: output_CSV_def split: option.split)
  show "snd (output_CSV p) =
       (case data p of
          None \<Rightarrow> Inl AttributeError
        | Some f \<Rightarrow> Inr (py_slice None (Some 3) (folder p) @ ''_extracted.csv'', f))"
    by (simp add: output_CSV_def)
  from n show "show_data p = ([Line warn_data_not_collected], Inr ())"
    by (simp add: show_data_def)
  from n show "apply_conditions p k conds = ([Line warn_data_not_collected], Inr p)"
    by (simp add: apply_conditions_def)
  from n show "sic_mapping p sic_tb = ([Line warn_data_not_collected], Inr p)"
    by (simp add: sic_mapping_def)
  assume "reachable p"
  from reachable_no_data[OF this n] n
  show "output_CSV p = ([Line warn_data_not_collected], Inl AttributeError)"
    by (simp add: output_CSV_def)
qed

theorem output_CSV_no_return_witness:
  "\<not> extracted (Processor_init ''census'' ''95x'' :: string processor) \<and>
   reachable (Processor_init ''census'' ''95x'' :: string processor) \<and>
   output_CSV (Processor_init ''census'' ''95x'' :: string processor) =
     ([Line warn_data_not_collected], Inl AttributeError) \<and>
   show_data (Processor_init ''census'' ''95x'' :: string processor) =
     ([Line warn_data_not_collected], Inr ())"
proof -
  let ?p = "Processor_init ''census'' ''95x'' :: string processor"
  have n: "\<not> extracted ?p"
    by (simp add: Processor_init_def)
  have r: "reachable ?p"
    by (rule reachable.init)
  note t = output_CSV_no_return[of ?p False "[]" example_sheet, THEN mp, OF n]
  from t r have 1: "output_CSV ?p = ([Line warn_data_not_collected], Inl AttributeError)"
    by blast
  from t have 2: "show_data ?p = ([Line warn_data_not_collected], Inr ())"
    by blast
  from n r 1 2 show ?thesis by simp
qed

end
